theory Spec2Isabelle
  imports Main "HOL-Library.Word" "HOL-Library.Multiset" "HOL-Library.Monad_Syntax"
begin

unbundle bit_operations_syntax

section \<open>Data model of the indexing kernels (aten/src/ATen/mps/IndexKernels.h)\<close>

text \<open>
  Metal's \<open>uint\<close> / \<open>uint32_t\<close> is a 32-bit word whose arithmetic wraps, \<open>int64_t\<close> a
  64-bit word read as two's complement by \<open>sint\<close>. A \<open>uint3\<close> (and a \<open>packed_uint3\<close>)
  is a vector of three \<open>uint\<close> components x, y, z.

  A kernel has no error channel: an access outside a bound buffer, a division by a zero
  extent or a misaligned typed access is undefined behaviour. Every model function returns
  \<open>None\<close> on such a path and \<open>Some\<close> of its result otherwise.
\<close>

type_synonym uint = "32 word"
type_synonym int64_t = "64 word"

datatype uint3 = Uint3 (uint3_x: uint) (uint3_y: uint) (uint3_z: uint)

text \<open>\<open>uint3 v = 0\<close> sets every component to zero.\<close>

definition uint3_zero :: uint3 where
  "uint3_zero = Uint3 0 0 0"

text \<open>\<open>a + b\<close> on vectors is component-wise.\<close>

definition uint3_add :: "uint3 \<Rightarrow> uint3 \<Rightarrow> uint3" where
  "uint3_add a b = Uint3 (uint3_x a + uint3_x b) (uint3_y a + uint3_y b) (uint3_z a + uint3_z b)"

text \<open>\<open>s * v\<close> of a scalar and a vector multiplies every component by the scalar.\<close>

definition uint3_scale :: "uint \<Rightarrow> uint3 \<Rightarrow> uint3" where
  "uint3_scale s v = Uint3 (s * uint3_x v) (s * uint3_y v) (s * uint3_z v)"

section \<open>The offset resolver \<open>get_idx\<close>\<close>

text \<open>
  \<^verbatim>\<open>
  uint3 data_offsets = 0;
  uint32_t idx = tid;
  for (uint32_t dim = 0; dim < num_dimensions; dim++) {
      uint32_t remainder = idx % iter_shape[dim];
      idx /= iter_shape[dim];
      data_offsets += remainder * strides[dim];
  }
  return data_offsets;
  \<close>
  The loop is a recursion on the counter \<open>dim\<close>, carrying \<open>idx\<close> and \<open>data_offsets\<close>.
\<close>

function get_idx_loop ::
  "uint list \<Rightarrow> nat \<Rightarrow> uint3 list \<Rightarrow> nat \<Rightarrow> uint \<Rightarrow> uint3 \<Rightarrow> uint3 option" where
  "get_idx_loop iter_shape num_dimensions strides dim idx data_offsets =
     (if dim < num_dimensions then
        (if dim < length iter_shape \<and> dim < length strides \<and> iter_shape ! dim \<noteq> 0 then
           (let remainder = idx mod (iter_shape ! dim);
                idx' = idx div (iter_shape ! dim)
            in get_idx_loop iter_shape num_dimensions strides (dim + 1) idx'
                 (uint3_add data_offsets (uint3_scale remainder (strides ! dim))))
         else None)
      else Some data_offsets)"
  by pat_completeness auto
termination
  by (relation "measure (\<lambda>(iter_shape, num_dimensions, strides, dim, idx, data_offsets).
        num_dimensions - dim)") auto

declare get_idx_loop.simps [simp del]

definition get_idx :: "uint \<Rightarrow> uint list \<Rightarrow> uint \<Rightarrow> uint3 list \<Rightarrow> uint3 option" where
  "get_idx tid iter_shape num_dimensions strides =
     get_idx_loop iter_shape (unat num_dimensions) strides 0 tid uint3_zero"

text \<open>
  The per-dimension coordinates of the decomposition: the values the local \<open>remainder\<close>
  takes in the iterations of the loop of \<open>get_idx\<close>, in the order of the dimensions.
\<close>

function get_idx_coords :: "uint list \<Rightarrow> nat \<Rightarrow> nat \<Rightarrow> uint \<Rightarrow> uint list option" where
  "get_idx_coords iter_shape num_dimensions dim idx =
     (if dim < num_dimensions then
        (if dim < length iter_shape \<and> iter_shape ! dim \<noteq> 0 then
           (let remainder = idx mod (iter_shape ! dim);
                idx' = idx div (iter_shape ! dim)
            in map_option (\<lambda>cs. remainder # cs)
                 (get_idx_coords iter_shape num_dimensions (dim + 1) idx'))
         else None)
      else Some [])"
  by pat_completeness auto
termination
  by (relation "measure (\<lambda>(iter_shape, num_dimensions, dim, idx). num_dimensions - dim)") auto

declare get_idx_coords.simps [simp del]

text \<open>
  The recombination of coordinates the specification names: the sum over the dimensions
  \<open>d\<close> of \<open>coord[d]\<close> times the product of the radices before \<open>d\<close>, over the naturals.
\<close>

definition recombine :: "uint list \<Rightarrow> uint list \<Rightarrow> nat" where
  "recombine coords shape =
     (\<Sum>d < length coords. unat (coords ! d) * prod_list (map unat (take d shape)))"

section \<open>The standalone precomputation kernel \<open>kernel_index_offsets\<close>\<close>

text \<open>
  \<^verbatim>\<open>
  data_offsets[thread_index] = 0;
  uint32_t idx = thread_index;
  for (uint32_t dim = 0; dim < num_dimensions; dim++) {
      uint32_t remainder = idx % iter_shape[dim];
      idx /= iter_shape[dim];
      data_offsets[thread_index] += remainder * strides[dim];
  }
  \<close>
  The kernel accumulates in place in the device array \<open>data_offsets\<close>, which the model
  passes through the loop. \<open>num_offsets\<close> is a parameter of the kernel.
\<close>

function kernel_index_offsets_loop ::
  "uint3 list \<Rightarrow> uint3 list \<Rightarrow> uint list \<Rightarrow> nat \<Rightarrow> nat \<Rightarrow> nat \<Rightarrow> uint \<Rightarrow> uint3 list option" where
  "kernel_index_offsets_loop strides data_offsets iter_shape num_dimensions thread_index dim idx =
     (if dim < num_dimensions then
        (if dim < length iter_shape \<and> dim < length strides \<and> iter_shape ! dim \<noteq> 0
            \<and> thread_index < length data_offsets then
           (let remainder = idx mod (iter_shape ! dim);
                idx' = idx div (iter_shape ! dim)
            in kernel_index_offsets_loop strides
                 (data_offsets[thread_index :=
                    uint3_add (data_offsets ! thread_index) (uint3_scale remainder (strides ! dim))])
                 iter_shape num_dimensions thread_index (dim + 1) idx')
         else None)
      else Some data_offsets)"
  by pat_completeness auto
termination
  by (relation "measure (\<lambda>(strides, data_offsets, iter_shape, num_dimensions, thread_index, dim, idx).
        num_dimensions - dim)") auto

declare kernel_index_offsets_loop.simps [simp del]

definition kernel_index_offsets ::
  "uint3 list \<Rightarrow> uint3 list \<Rightarrow> uint list \<Rightarrow> uint \<Rightarrow> uint \<Rightarrow> uint \<Rightarrow> uint3 list option" where
  "kernel_index_offsets strides data_offsets iter_shape num_dimensions num_offsets thread_index =
     (if unat thread_index < length data_offsets then
        kernel_index_offsets_loop strides (data_offsets[unat thread_index := uint3_zero])
          iter_shape (unat num_dimensions) (unat thread_index) 0 thread_index
      else None)"

section \<open>The index table \<open>IndexAB\<close>\<close>

text \<open>
  A pointer into the constant address space is an address; \<open>constant_memory\<close> maps the
  address of an index array to its \<open>int64_t\<close> elements, and an address that holds no
  array to \<open>None\<close>.

  The source declares \<open>IndexAB\<close> twice. Below Metal 3.0 it is one struct holding a
  \<open>metal::array\<close> of 16 untyped pointers, bound by reference; from Metal 3.0 on it is a
  struct holding one \<open>int64_t\<close> pointer, and buffer 0 is an array of such structs.
\<close>

type_synonym ptr = nat
type_synonym constant_memory = "ptr \<Rightarrow> int64_t list option"

datatype IndexAB_legacy = IndexAB_legacy (indexArray_legacy: "ptr list")
datatype IndexAB_modern = IndexAB_modern (indexArray_modern: ptr)

datatype IndexAB = Legacy IndexAB_legacy | Modern "IndexAB_modern list"

text \<open>
  \<^verbatim>\<open>
  #if __METAL_VERSION__ >= 300
      constant int64_t* indexArray = indexAB[i].indexArray;
  #else
      constant int64_t* indexArray = (constant int64_t*)indexAB.indexArray[i];
  #endif
  \<close>
\<close>

definition index_array :: "constant_memory \<Rightarrow> IndexAB \<Rightarrow> nat \<Rightarrow> int64_t list option" where
  "index_array cmem indexAB i =
     (case indexAB of
        Legacy ab \<Rightarrow>
          (if i < 16 \<and> i < length (indexArray_legacy ab)
           then cmem (indexArray_legacy ab ! i) else None)
      | Modern entries \<Rightarrow>
          (if i < length entries then cmem (indexArray_modern (entries ! i)) else None))"

section \<open>The indirect offset\<close>

text \<open>
  \<^verbatim>\<open>
  if (index < 0) {
      index += index_sizes[i];
  }
  \<close>
  \<open>index\<close> is an \<open>int64_t\<close>: the comparison is signed, the addition wraps.
  \<open>index_sizes[i]\<close> is read only on the negative branch.
\<close>

definition wrap_index :: "int64_t list \<Rightarrow> nat \<Rightarrow> int64_t \<Rightarrow> int64_t option" where
  "wrap_index index_sizes i index =
     (if index <s 0 then
        (if i < length index_sizes then Some (index + index_sizes ! i) else None)
      else Some index)"

text \<open>
  \<^verbatim>\<open>
  int64_t offset = 0;
  for (uint32_t i = 0; i < num_indices; i++) {
      constant int64_t* indexArray = ...;
      int64_t index = indexArray[offsets.z / sizeof(int64_t)];
      if (index < 0) {
          index += index_sizes[i];
      }
      offset += index * index_strides[i];
  }
  \<close>
  The four kernels \<open>index_select\<close>, \<open>index_put\<close>, \<open>index_put_accumulate_native_dtypes\<close> and
  \<open>atomic_index_put_accumulate\<close> each contain this loop, token for token; the model states
  it once and each kernel calls it. \<open>sizeof(int64_t)\<close> is 8 and the division is unsigned.
\<close>

function index_offset_loop ::
  "constant_memory \<Rightarrow> IndexAB \<Rightarrow> int64_t list \<Rightarrow> int64_t list \<Rightarrow> nat \<Rightarrow> uint3 \<Rightarrow> nat \<Rightarrow> int64_t
     \<Rightarrow> int64_t option" where
  "index_offset_loop cmem indexAB index_sizes index_strides num_indices offsets i offset =
     (if i < num_indices then
        (case index_array cmem indexAB i of
           None \<Rightarrow> None
         | Some indexArray \<Rightarrow>
             (if unat (uint3_z offsets) div 8 < length indexArray then
                (case wrap_index index_sizes i (indexArray ! (unat (uint3_z offsets) div 8)) of
                   None \<Rightarrow> None
                 | Some index \<Rightarrow>
                     (if i < length index_strides then
                        index_offset_loop cmem indexAB index_sizes index_strides num_indices offsets
                          (i + 1) (offset + index * index_strides ! i)
                      else None))
              else None))
      else Some offset)"
  by pat_completeness auto
termination
  by (relation "measure (\<lambda>(cmem, indexAB, index_sizes, index_strides, num_indices, offsets, i, offset).
        num_indices - i)") auto

declare index_offset_loop.simps [simp del]

section \<open>Typed access to the data buffers\<close>

text \<open>
  \<open>inputData\<close> and \<open>outputData\<close> are untyped buffers that a kernel reads and writes through
  a pointer to its element type \<open>T\<close>, at a byte offset from the start of the buffer. A
  buffer is the list of its elements of type \<open>T\<close>; \<open>deref sz buf a\<close> is the position of the
  element at byte offset \<open>a\<close>, where \<open>sz\<close> is \<open>sizeof(T)\<close>. An offset before the buffer,
  past its end or not a multiple of \<open>sizeof(T)\<close> has no element.

  The byte offset is the sum of a \<open>uint\<close> component of \<open>offsets\<close>, which the pointer
  addition zero-extends, and of the \<open>int64_t\<close> \<open>offset\<close>, which is signed.
\<close>

definition deref :: "nat \<Rightarrow> 'a list \<Rightarrow> int \<Rightarrow> nat option" where
  "deref sz buf a =
     (if 0 < sz \<and> 0 \<le> a \<and> a mod int sz = 0 \<and> nat (a div int sz) < length buf
      then Some (nat (a div int sz)) else None)"

section \<open>The gather kernel \<open>index_select\<close>\<close>

text \<open>
  \<^verbatim>\<open>
  uint3 offsets = get_idx(thread_index, iter_shape, num_dimensions, strides);
  ... the indirect offset loop ...
  device T * out = (device T*)((device char*)outputData + offsets.x);
  constant T * in  = (constant T*)((constant char*)inputData  + offsets.y + offset);
  *out = *in;
  \<close>
  \<open>index_select_addrs\<close> is the computation of the two pointers, as positions in the two
  buffers; \<open>index_select\<close> is the kernel, returning \<open>outputData\<close> after the store.
\<close>

definition index_select_addrs ::
  "nat \<Rightarrow> constant_memory \<Rightarrow> IndexAB \<Rightarrow> int64_t list \<Rightarrow> int64_t list \<Rightarrow> 'a list \<Rightarrow> 'a list
     \<Rightarrow> uint \<Rightarrow> uint list \<Rightarrow> uint \<Rightarrow> uint3 list \<Rightarrow> uint \<Rightarrow> (nat \<times> nat) option" where
  "index_select_addrs sz cmem indexAB indexSizes indexStrides inputData outputData
       num_indices iter_shape num_dimensions strides thread_index =
     do {
       offsets \<leftarrow> get_idx thread_index iter_shape num_dimensions strides;
       offset \<leftarrow> index_offset_loop cmem indexAB indexSizes indexStrides (unat num_indices) offsets 0 0;
       out \<leftarrow> deref sz outputData (int (unat (uint3_x offsets)));
       inp \<leftarrow> deref sz inputData (int (unat (uint3_y offsets)) + sint offset);
       Some (out, inp)
     }"

definition index_select ::
  "nat \<Rightarrow> constant_memory \<Rightarrow> IndexAB \<Rightarrow> int64_t list \<Rightarrow> int64_t list \<Rightarrow> 'a list \<Rightarrow> 'a list
     \<Rightarrow> uint \<Rightarrow> uint list \<Rightarrow> uint \<Rightarrow> uint3 list \<Rightarrow> uint \<Rightarrow> 'a list option" where
  "index_select sz cmem indexAB indexSizes indexStrides inputData outputData
       num_indices iter_shape num_dimensions strides thread_index =
     do {
       (out, inp) \<leftarrow> index_select_addrs sz cmem indexAB indexSizes indexStrides inputData outputData
                       num_indices iter_shape num_dimensions strides thread_index;
       Some (outputData[out := inputData ! inp])
     }"

section \<open>The scatter kernel \<open>index_put\<close>\<close>

text \<open>
  \<^verbatim>\<open>
  device T * out = (device T*)((device char*)outputData + offsets.x + offset);
  constant T * in  = (constant T*)((constant char*)inputData  + offsets.y);
  *out = *in;
  \<close>
\<close>

definition index_put_addrs ::
  "nat \<Rightarrow> constant_memory \<Rightarrow> IndexAB \<Rightarrow> int64_t list \<Rightarrow> int64_t list \<Rightarrow> 'a list \<Rightarrow> 'a list
     \<Rightarrow> uint \<Rightarrow> uint list \<Rightarrow> uint \<Rightarrow> uint3 list \<Rightarrow> uint \<Rightarrow> (nat \<times> nat) option" where
  "index_put_addrs sz cmem indexAB indexSizes indexStrides inputData outputData
       num_indices iter_shape num_dimensions strides thread_index =
     do {
       offsets \<leftarrow> get_idx thread_index iter_shape num_dimensions strides;
       offset \<leftarrow> index_offset_loop cmem indexAB indexSizes indexStrides (unat num_indices) offsets 0 0;
       out \<leftarrow> deref sz outputData (int (unat (uint3_x offsets)) + sint offset);
       inp \<leftarrow> deref sz inputData (int (unat (uint3_y offsets)));
       Some (out, inp)
     }"

definition index_put ::
  "nat \<Rightarrow> constant_memory \<Rightarrow> IndexAB \<Rightarrow> int64_t list \<Rightarrow> int64_t list \<Rightarrow> 'a list \<Rightarrow> 'a list
     \<Rightarrow> uint \<Rightarrow> uint list \<Rightarrow> uint \<Rightarrow> uint3 list \<Rightarrow> uint \<Rightarrow> 'a list option" where
  "index_put sz cmem indexAB indexSizes indexStrides inputData outputData
       num_indices iter_shape num_dimensions strides thread_index =
     do {
       (out, inp) \<leftarrow> index_put_addrs sz cmem indexAB indexSizes indexStrides inputData outputData
                       num_indices iter_shape num_dimensions strides thread_index;
       Some (outputData[out := inputData ! inp])
     }"

section \<open>Launching a kernel over a grid\<close>

text \<open>
  The threads of a launch run in no fixed order. A thread of \<open>index_select\<close> or of
  \<open>index_put\<close> reads buffers that no thread writes and performs one store, so a launch
  is the threads run one after the other in some order: \<open>grid thread order outputData\<close>
  runs the thread ids of the list \<open>order\<close> from left to right, \<open>thread outputData t\<close>
  being thread \<open>t\<close> on the output buffer as the threads before it left it.
\<close>

fun grid :: "('b \<Rightarrow> uint \<Rightarrow> 'b option) \<Rightarrow> uint list \<Rightarrow> 'b \<Rightarrow> 'b option" where
  "grid thread [] outputData = Some outputData"
| "grid thread (t # ts) outputData =
     (case thread outputData t of
        None \<Rightarrow> None
      | Some outputData' \<Rightarrow> grid thread ts outputData')"

section \<open>The accumulating scatter on natively atomic types\<close>

text \<open>
  \<^verbatim>\<open>
  device T * out = (device T*)((device char*)outputData + offsets.x + offset);
  constant E * in  = (constant E*)((constant char*)inputData  + offsets.y);
  atomic_fetch_add_explicit(out, *in, memory_order_relaxed);
  \<close>
  The kernel is instantiated once, as \<open>index_put_accumulate_32bit_int\<close> with
  \<open>T = atomic_int\<close> and \<open>E = int\<close>: both buffers are lists of 32-bit integers (their bit
  patterns) and \<open>sizeof\<close> is 4. The atomic addition is one indivisible step on the
  slot and wraps in two's complement. It is the only access of a thread to memory that
  another thread writes, so a launch is its threads run one after the other in some
  order, as \<open>grid\<close> runs them.
\<close>

definition atomic_fetch_add_explicit :: "uint list \<Rightarrow> nat \<Rightarrow> uint \<Rightarrow> uint list" where
  "atomic_fetch_add_explicit mem object operand = mem[object := mem ! object + operand]"

definition index_put_accumulate_native_dtypes_addrs ::
  "constant_memory \<Rightarrow> IndexAB \<Rightarrow> int64_t list \<Rightarrow> int64_t list \<Rightarrow> uint list \<Rightarrow> uint list
     \<Rightarrow> uint \<Rightarrow> uint list \<Rightarrow> uint \<Rightarrow> uint3 list \<Rightarrow> uint \<Rightarrow> (nat \<times> nat) option" where
  "index_put_accumulate_native_dtypes_addrs cmem indexAB indexSizes indexStrides inputData outputData
       num_indices iter_shape num_dimensions strides thread_index =
     do {
       offsets \<leftarrow> get_idx thread_index iter_shape num_dimensions strides;
       offset \<leftarrow> index_offset_loop cmem indexAB indexSizes indexStrides (unat num_indices) offsets 0 0;
       out \<leftarrow> deref 4 outputData (int (unat (uint3_x offsets)) + sint offset);
       inp \<leftarrow> deref 4 inputData (int (unat (uint3_y offsets)));
       Some (out, inp)
     }"

definition index_put_accumulate_native_dtypes ::
  "constant_memory \<Rightarrow> IndexAB \<Rightarrow> int64_t list \<Rightarrow> int64_t list \<Rightarrow> uint list \<Rightarrow> uint list
     \<Rightarrow> uint \<Rightarrow> uint list \<Rightarrow> uint \<Rightarrow> uint3 list \<Rightarrow> uint \<Rightarrow> uint list option" where
  "index_put_accumulate_native_dtypes cmem indexAB indexSizes indexStrides inputData outputData
       num_indices iter_shape num_dimensions strides thread_index =
     do {
       (out, inp) \<leftarrow> index_put_accumulate_native_dtypes_addrs cmem indexAB indexSizes indexStrides
                       inputData outputData num_indices iter_shape num_dimensions strides thread_index;
       Some (atomic_fetch_add_explicit outputData out (inputData ! inp))
     }"

section \<open>32-bit floating point\<close>

text \<open>
  Metal's \<open>float\<close> is the IEEE 754 binary32 format: a \<open>float\<close> is its 32-bit pattern
  (sign bit 31, exponent bits 30 to 23, fraction bits 22 to 0), and \<open>as_type\<close> between
  \<open>float\<close> and \<open>uint\<close> reinterprets the pattern.
\<close>

datatype float = Float (float_bits: uint)

definition as_type_float :: "uint \<Rightarrow> float" where
  "as_type_float w = Float w"

definition as_type_uint :: "float \<Rightarrow> uint" where
  "as_type_uint f = float_bits f"

definition float_sign :: "float \<Rightarrow> bool" where
  "float_sign f = bit (float_bits f) 31"

definition float_exponent :: "float \<Rightarrow> nat" where
  "float_exponent f = unat (take_bit 8 (drop_bit 23 (float_bits f)))"

definition float_fraction :: "float \<Rightarrow> nat" where
  "float_fraction f = unat (take_bit 23 (float_bits f))"

definition float_is_nan :: "float \<Rightarrow> bool" where
  "float_is_nan f = (float_exponent f = 255 \<and> float_fraction f \<noteq> 0)"

definition float_is_inf :: "float \<Rightarrow> bool" where
  "float_is_inf f = (float_exponent f = 255 \<and> float_fraction f = 0)"

text \<open>
  Every finite \<open>float\<close> is an integer multiple of \<open>2\<^sup>-\<^sup>1\<^sup>4\<^sup>9\<close>; \<open>float_scaled f\<close> is that
  integer: the value of \<open>f\<close> times \<open>2\<^sup>1\<^sup>4\<^sup>9\<close>.
\<close>

definition float_scaled :: "float \<Rightarrow> int" where
  "float_scaled f =
     (let m = (if float_exponent f = 0 then int (float_fraction f)
               else (2 ^ 23 + int (float_fraction f)) * 2 ^ (float_exponent f - 1))
      in if float_sign f then - m else m)"

fun bit_length :: "nat \<Rightarrow> nat" where
  "bit_length n = (if n = 0 then 0 else Suc (bit_length (n div 2)))"

declare bit_length.simps [simp del]

text \<open>
  \<open>float_round n\<close> is the pattern, without the sign bit, of the \<open>float\<close> nearest to
  \<open>n\<close> times \<open>2\<^sup>-\<^sup>1\<^sup>4\<^sup>9\<close>, ties going to the even fraction and overflow to infinity. The
  low \<open>k\<close> bits of \<open>n\<close> that do not fit in 24 bits are rounded away; the pattern with
  exponent field \<open>k + 1\<close> and the 24-bit significand \<open>q\<close> is \<open>k * 2\<^sup>2\<^sup>3 + q\<close>.
\<close>

definition float_round :: "nat \<Rightarrow> uint" where
  "float_round n =
     (let k = bit_length n - 24;
          q = n div 2 ^ k;
          r = n mod 2 ^ k;
          q' = (if 2 * r > 2 ^ k \<or> (2 * r = 2 ^ k \<and> odd q) then q + 1 else q);
          b = k * 2 ^ 23 + q'
      in if b \<ge> 255 * 2 ^ 23 then 0x7F800000 else of_nat b)"

text \<open>
  \<open>x + y\<close> on \<open>float\<close> is an operator of the language, which the source uses and does
  not define: the exact sum, rounded to nearest with ties to even. A NaN operand or the
  sum of opposite infinities gives the quiet NaN; an exact zero sum is \<open>-0\<close> only when both
  operands are negative. The statements below that evaluate it do so on \<open>2\<^sup>2\<^sup>4 + 1\<close>, which
  no \<open>float\<close> represents, and on sums that are exact.
\<close>

definition float_add :: "float \<Rightarrow> float \<Rightarrow> float" where
  "float_add a b =
     (if float_is_nan a \<or> float_is_nan b then Float 0x7FC00000
      else if float_is_inf a then
        (if float_is_inf b \<and> float_sign a \<noteq> float_sign b then Float 0x7FC00000 else a)
      else if float_is_inf b then b
      else
        (let s = float_scaled a + float_scaled b
         in if s = 0 then (if float_sign a \<and> float_sign b then Float 0x80000000 else Float 0)
            else if s < 0 then Float (0x80000000 OR float_round (nat (- s)))
            else Float (float_round (nat s))))"

section \<open>The emulated atomic addition \<open>atomic_fetch_add_relaxed\<close>\<close>

text \<open>
  \<^verbatim>\<open>
  device atomic_uint* uintAddr = (device atomic_uint*)addr;
  uint expected = atomic_load_explicit(uintAddr, memory_order_relaxed);
  T updated = as_type<T>(expected) + value;
  while (!atomic_compare_exchange_weak_explicit(uintAddr, &expected, as_type<uint>(updated),
                                                memory_order_relaxed, memory_order_relaxed)) {
      updated = as_type<T>(expected) + value;
  }
  \<close>
  The function is instantiated with \<open>T = float\<close>. The destination buffer is the list of
  its 32-bit slots and \<open>addr\<close> the position of one of them.

  A compare-and-swap compares the slot with \<open>expected\<close>. If they are equal it stores
  \<open>desired\<close> and returns true; the weak form may also fail then, which the flag
  \<open>spurious\<close> decides. On failure it loads the slot into \<open>expected\<close> and returns false.
  The result is the return value, the memory and \<open>expected\<close> afterwards.
\<close>

definition atomic_compare_exchange_weak_explicit ::
  "uint list \<Rightarrow> nat \<Rightarrow> uint \<Rightarrow> uint \<Rightarrow> bool \<Rightarrow> bool \<times> uint list \<times> uint" where
  "atomic_compare_exchange_weak_explicit mem object expected desired spurious =
     (if mem ! object = expected \<and> \<not> spurious then (True, mem[object := desired], expected)
      else (False, mem, mem ! object))"

text \<open>
  Between two accesses of a thread to the slot other threads may access it, so the
  function is a state machine with one transition for each access. The control points
  are: before the load; before a compare-and-swap, with the locals \<open>expected\<close> and
  \<open>updated\<close>; after the return.
\<close>

datatype fetch_add_pc = AtLoad | AtCAS uint float | Returned

fun atomic_fetch_add_relaxed_step ::
  "nat \<Rightarrow> float \<Rightarrow> bool \<Rightarrow> uint list \<Rightarrow> fetch_add_pc \<Rightarrow> uint list \<times> fetch_add_pc" where
  "atomic_fetch_add_relaxed_step addr val spurious mem AtLoad =
     (let expected = mem ! addr;
          updated = float_add (as_type_float expected) val
      in (mem, AtCAS expected updated))"
| "atomic_fetch_add_relaxed_step addr val spurious mem (AtCAS expected updated) =
     (case atomic_compare_exchange_weak_explicit mem addr expected (as_type_uint updated) spurious of
        (True, mem', expected') \<Rightarrow> (mem', Returned)
      | (False, mem', expected') \<Rightarrow>
          (mem', AtCAS expected' (float_add (as_type_float expected') val)))"
| "atomic_fetch_add_relaxed_step addr val spurious mem Returned = (mem, Returned)"

text \<open>
  One call against its environment: an event is either a store of another thread to
  the slot or a transition of the call, with the flag of its compare-and-swap.
\<close>

datatype event = Interfere uint | Step bool

fun atomic_fetch_add_relaxed_exec ::
  "nat \<Rightarrow> float \<Rightarrow> event list \<Rightarrow> uint list \<times> fetch_add_pc \<Rightarrow> uint list \<times> fetch_add_pc" where
  "atomic_fetch_add_relaxed_exec addr val [] cfg = cfg"
| "atomic_fetch_add_relaxed_exec addr val (Interfere w # evs) (mem, pc) =
     atomic_fetch_add_relaxed_exec addr val evs (mem[addr := w], pc)"
| "atomic_fetch_add_relaxed_exec addr val (Step spurious # evs) (mem, pc) =
     atomic_fetch_add_relaxed_exec addr val evs (atomic_fetch_add_relaxed_step addr val spurious mem pc)"

section \<open>The accumulating scatter with the emulated atomic addition\<close>

text \<open>
  \<^verbatim>\<open>
  device void * out = (device void*)((device char*)outputData + offsets.x + offset);
  constant T  * in  = (constant T*)((constant char*)inputData + offsets.y);
  atomic_fetch_add_relaxed<T>(out, *in);
  \<close>
  \<open>atomic_index_put_accumulate\<close> is the kernel up to the call: it returns the two
  arguments of the call, the position of the slot and the value read from \<open>inputData\<close>.
  Up to there a thread reads only buffers that no thread writes.
\<close>

definition atomic_index_put_accumulate ::
  "constant_memory \<Rightarrow> IndexAB \<Rightarrow> int64_t list \<Rightarrow> int64_t list \<Rightarrow> float list \<Rightarrow> uint list
     \<Rightarrow> uint \<Rightarrow> uint list \<Rightarrow> uint \<Rightarrow> uint3 list \<Rightarrow> uint \<Rightarrow> (nat \<times> float) option" where
  "atomic_index_put_accumulate cmem indexAB indexSizes indexStrides inputData outputData
       num_indices iter_shape num_dimensions strides thread_index =
     do {
       offsets \<leftarrow> get_idx thread_index iter_shape num_dimensions strides;
       offset \<leftarrow> index_offset_loop cmem indexAB indexSizes indexStrides (unat num_indices) offsets 0 0;
       out \<leftarrow> deref 4 outputData (int (unat (uint3_x offsets)) + sint offset);
       inp \<leftarrow> deref 4 inputData (int (unat (uint3_y offsets)));
       Some (out, inputData ! inp)
     }"

text \<open>
  The threads of a launch, each in its call of \<open>atomic_fetch_add_relaxed\<close>: a thread is
  the two arguments of its call and its control point. A schedule is a list of pairs of
  the position of the thread that makes the next transition and the flag of its
  compare-and-swap; \<open>run\<close> executes a schedule.
\<close>

type_synonym thread = "nat \<times> float \<times> fetch_add_pc"

fun sched_step :: "nat \<times> bool \<Rightarrow> uint list \<times> thread list \<Rightarrow> uint list \<times> thread list" where
  "sched_step (k, spurious) (mem, threads) =
     (if k < length threads then
        (case threads ! k of (addr, val, pc) \<Rightarrow>
           (case atomic_fetch_add_relaxed_step addr val spurious mem pc of
              (mem', pc') \<Rightarrow> (mem', threads[k := (addr, val, pc')])))
      else (mem, threads))"

definition run :: "(nat \<times> bool) list \<Rightarrow> uint list \<times> thread list \<Rightarrow> uint list \<times> thread list" where
  "run sched cfg = fold sched_step sched cfg"

definition all_returned :: "uint list \<times> thread list \<Rightarrow> bool" where
  "all_returned cfg = list_all (\<lambda>(addr, val, pc). pc = Returned) (snd cfg)"

text \<open>
  A launch of \<open>atomic_index_put_accumulate\<close> over the thread ids \<open>ts\<close> under a schedule:
  the memory and the threads after the schedule, or \<open>None\<close> when the address computation
  of a thread is undefined.
\<close>

definition atomic_index_put_accumulate_grid ::
  "constant_memory \<Rightarrow> IndexAB \<Rightarrow> int64_t list \<Rightarrow> int64_t list \<Rightarrow> float list \<Rightarrow> uint list
     \<Rightarrow> uint \<Rightarrow> uint list \<Rightarrow> uint \<Rightarrow> uint3 list \<Rightarrow> uint list \<Rightarrow> (nat \<times> bool) list
     \<Rightarrow> (uint list \<times> thread list) option" where
  "atomic_index_put_accumulate_grid cmem indexAB indexSizes indexStrides inputData outputData
       num_indices iter_shape num_dimensions strides ts sched =
     (case those (map (atomic_index_put_accumulate cmem indexAB indexSizes indexStrides inputData
                         outputData num_indices iter_shape num_dimensions strides) ts) of
        None \<Rightarrow> None
      | Some calls \<Rightarrow>
          Some (run sched (outputData, map (\<lambda>(addr, val). (addr, val, AtLoad)) calls)))"

section \<open>Auxiliary notions of the statements\<close>

text \<open>
  The sum of the coordinates weighted by the strides, accumulated from \<open>acc\<close> in the
  order of the dimensions.
\<close>

fun weighted :: "uint3 \<Rightarrow> uint list \<Rightarrow> uint3 list \<Rightarrow> uint3" where
  "weighted acc [] sts = acc"
| "weighted acc (c # cs) [] = acc"
| "weighted acc (c # cs) (st # sts) = weighted (uint3_add acc (uint3_scale c st)) cs sts"

text \<open>A stride with its output and input components exchanged.\<close>

definition exchange_xy :: "uint3 \<Rightarrow> uint3" where
  "exchange_xy v = Uint3 (uint3_y v) (uint3_x v) (uint3_z v)"

text \<open>
  The index of the indexed dimension \<open>i\<close> that a thread reads and normalizes in iteration
  \<open>i\<close> of the indirect offset loop.
\<close>

definition normalized_index ::
  "constant_memory \<Rightarrow> IndexAB \<Rightarrow> int64_t list \<Rightarrow> uint3 \<Rightarrow> nat \<Rightarrow> int64_t option" where
  "normalized_index cmem indexAB index_sizes offsets i =
     (case index_array cmem indexAB i of
        None \<Rightarrow> None
      | Some indexArray \<Rightarrow>
          (if unat (uint3_z offsets) div 8 < length indexArray
           then wrap_index index_sizes i (indexArray ! (unat (uint3_z offsets) div 8))
           else None))"

text \<open>
  At a compare-and-swap of \<open>atomic_fetch_add_relaxed\<close> the local \<open>updated\<close> is the sum of
  the current \<open>expected\<close>, read as a \<open>float\<close>, and \<open>value\<close>.
\<close>

definition updated_current :: "float \<Rightarrow> fetch_add_pc \<Rightarrow> bool" where
  "updated_current val pc = (case pc of AtCAS e u \<Rightarrow> u = float_add (as_type_float e) val | _ \<Rightarrow> True)"

text \<open>
  The values of the threads that have returned, the arguments of the calls of the
  threads, and the invariant of a launch in which every call is on the slot \<open>a\<close>, which
  held \<open>init\<close> before the launch: the slot holds \<open>init\<close> with the values of the returned
  threads added to it one after the other, in some order.
\<close>

definition returned_vals :: "thread list \<Rightarrow> float list" where
  "returned_vals threads =
     map (\<lambda>(addr, val, pc). val) (filter (\<lambda>(addr, val, pc). pc = Returned) threads)"

definition calls_of :: "thread list \<Rightarrow> (nat \<times> float) list" where
  "calls_of threads = map (\<lambda>(addr, val, pc). (addr, val)) threads"

definition accumulate_inv ::
  "nat \<Rightarrow> uint \<Rightarrow> (nat \<times> float) list \<Rightarrow> uint list \<times> thread list \<Rightarrow> bool" where
  "accumulate_inv a init calls cfg =
     (case cfg of (mem, threads) \<Rightarrow>
        a < length mem \<and> calls_of threads = calls
      \<and> (\<forall>c \<in> set calls. fst c = a)
      \<and> (\<forall>th \<in> set threads. updated_current (fst (snd th)) (snd (snd th)))
      \<and> (\<exists>ws. mset ws = mset (returned_vals threads)
             \<and> mem ! a = as_type_uint (foldl float_add (as_type_float init) ws)))"

text \<open>
  The schedule that runs the threads \<open>0, \<dots>, n - 1\<close> one after the other, each through its
  load and one compare-and-swap that does not fail spuriously.
\<close>

definition sequential :: "nat \<Rightarrow> (nat \<times> bool) list" where
  "sequential n = concat (map (\<lambda>k. [(k, False), (k, False)]) [0..<n])"

section \<open>The mixed-radix decomposition of \<open>get_idx\<close>\<close>

lemma recombine_Nil: "recombine [] shape = 0"
  by (simp add: recombine_def)

lemma recombine_Cons:
  "recombine (c # cs) (s # ss) = unat c + unat s * recombine cs ss"
proof -
  have "recombine (c # cs) (s # ss) =
        unat c + (\<Sum>d < length cs. unat (cs ! d) * (unat s * prod_list (map unat (take d ss))))"
    unfolding recombine_def length_Cons sum.lessThan_Suc_shift by simp
  also have "\<dots> = unat c + unat s * recombine cs ss"
    by (simp add: recombine_def sum_distrib_left mult.left_commute)
  finally show ?thesis .
qed

text \<open>
  From dimension \<open>dim\<close> on, with an index below the product of the remaining extents,
  the loop is defined and the coordinates it produces recombine to the index.
\<close>

lemma get_idx_coords_decompose:
  assumes "dim \<le> n" "n \<le> length S" "\<forall>j < n. S ! j \<noteq> 0"
    and "unat idx < prod_list (map unat (drop dim (take n S)))"
  shows "\<exists>cs. get_idx_coords S n dim idx = Some cs \<and> length cs = n - dim
           \<and> recombine cs (drop dim S) = unat idx"
  using assms
proof (induction S n dim idx rule: get_idx_coords.induct)
  case (1 S n dim idx)
  show ?case
  proof (cases "dim < n")
    case False
    with 1 have "dim = n" by simp
    with 1 show ?thesis
      by (simp add: get_idx_coords.simps recombine_Nil)
  next
    case True
    let ?s = "S ! dim"
    from True 1 have inb: "dim < length S" and nz: "?s \<noteq> 0" by auto
    have dropS: "drop dim S = ?s # drop (Suc dim) S"
      using inb by (simp add: Cons_nth_drop_Suc)
    have droptake: "drop dim (take n S) = ?s # drop (Suc dim) (take n S)"
      using inb True by (metis Cons_nth_drop_Suc length_take min.absorb2 nth_take "1.prems"(2))
    have bound: "unat idx < unat ?s * prod_list (map unat (drop (Suc dim) (take n S)))"
      using "1.prems"(4) droptake by simp
    have spos: "0 < unat ?s" using nz by (simp add: unat_gt_0)
    have lt: "unat (idx div ?s) < prod_list (map unat (drop (Suc dim) (take n S)))"
      using bound spos by (simp add: unat_div less_mult_imp_div_less mult.commute)
    from "1.IH"[OF True _ refl refl] inb nz True "1.prems" lt
    obtain cs where cs: "get_idx_coords S n (dim + 1) (idx div ?s) = Some cs"
      "length cs = n - (dim + 1)" "recombine cs (drop (dim + 1) S) = unat (idx div ?s)"
      by auto
    have "get_idx_coords S n dim idx = Some ((idx mod ?s) # cs)"
      using True inb nz cs(1) by (subst get_idx_coords.simps) (simp add: Let_def)
    moreover have "length ((idx mod ?s) # cs) = n - dim" using cs(2) True by simp
    moreover have "recombine ((idx mod ?s) # cs) (drop dim S) = unat idx"
      using cs(3) by (simp add: dropS recombine_Cons unat_mod unat_div)
    ultimately show ?thesis by blast
  qed
qed

text \<open>
  The offsets of \<open>get_idx\<close> are the coordinates weighted by the strides: the coordinates
  are those of the resolver.
\<close>

lemma get_idx_loop_coords:
  assumes "n \<le> length strides" "dim \<le> n"
  shows "get_idx_loop S n strides dim idx acc =
         map_option (\<lambda>cs. weighted acc cs (drop dim strides)) (get_idx_coords S n dim idx)"
  using assms
proof (induction S n strides dim idx acc rule: get_idx_loop.induct)
  case (1 S n strides dim idx acc)
  show ?case
  proof (cases "dim < n \<and> dim < length S \<and> S ! dim \<noteq> 0")
    case False
    then show ?thesis using 1
      by (subst get_idx_loop.simps, subst get_idx_coords.simps) auto
  next
    case True
    then have st: "dim < length strides" using "1.prems" by simp
    have dr: "drop dim strides = strides ! dim # drop (Suc dim) strides"
      using st by (simp add: Cons_nth_drop_Suc)
    show ?thesis
      using True st "1.IH"[OF _ _ refl refl] "1.prems"
      by (subst get_idx_loop.simps, subst get_idx_coords.simps)
         (simp add: Let_def dr option.map_comp comp_def)
  qed
qed

text \<open>
  Claim C3. For a shape \<open>S\<close> of rank \<open>r\<close> with all extents positive and a thread id \<open>t\<close>
  below the product of the extents, the loop of \<open>get_idx\<close> is defined, produces one
  coordinate for each dimension, and the coordinates recombine to \<open>t\<close>: the sum of
  \<open>coord[d]\<close> times the product of the extents before \<open>d\<close> is \<open>t\<close>. The offsets that
  \<open>get_idx\<close> returns are these coordinates weighted by the strides.
\<close>

theorem get_idx_mixed_radix_roundtrip:
  assumes "length S = unat r" and "\<forall>s \<in> set S. s \<noteq> 0"
    and "unat t < prod_list (map unat S)"
  shows "\<exists>coords. get_idx_coords S (unat r) 0 t = Some coords \<and> length coords = unat r
           \<and> recombine coords S = unat t
           \<and> (\<forall>strides. length strides = unat r \<longrightarrow>
                 get_idx t S r strides = Some (weighted uint3_zero coords strides))"
proof -
  have "\<forall>j < unat r. S ! j \<noteq> 0" using assms(1,2) by simp
  with get_idx_coords_decompose[of 0 "unat r" S t] assms
  obtain coords where c: "get_idx_coords S (unat r) 0 t = Some coords" "length coords = unat r"
    "recombine coords S = unat t" by auto
  have "get_idx t S r strides = Some (weighted uint3_zero coords strides)"
    if "length strides = unat r" for strides
    using that c(1) get_idx_loop_coords[of "unat r" strides 0 S t uint3_zero]
    by (simp add: get_idx_def)
  with c show ?thesis by blast
qed

theorem get_idx_mixed_radix_roundtrip_witness:
  "get_idx_coords [4, 3] (unat (2 :: uint)) 0 7 = Some [3, 1]
   \<and> recombine [3, 1] [4, 3] = unat (7 :: uint)
   \<and> get_idx 7 [4, 3] 2 [Uint3 4 4 0, Uint3 12 0 8] = Some (Uint3 24 12 8)"
proof -
  have c: "get_idx_coords [4, 3] (unat (2 :: uint)) 0 7 = Some [3, 1]"
    by (simp add: get_idx_coords.simps)
  from get_idx_mixed_radix_roundtrip[of "[4, 3]" 2 7] c
  have "recombine [3, 1] [4, 3] = unat (7 :: uint)"
    and "\<forall>strides. length strides = unat (2 :: uint) \<longrightarrow>
           get_idx 7 [4, 3] 2 strides = Some (weighted uint3_zero [3, 1] strides)"
    by auto
  then show ?thesis using c
    by (simp add: uint3_zero_def uint3_add_def uint3_scale_def)
qed

section \<open>Normalization of negative indices\<close>

lemma sint_of_int_eq:
  "- (2 ^ 63) \<le> x \<Longrightarrow> x < 2 ^ 63 \<Longrightarrow> sint (word_of_int x :: int64_t) = x"
  by (simp add: signed_of_int signed_take_bit_int_eq_self)

text \<open>
  The normalization on its own: with the size \<open>N\<close> of the indexed dimension \<open>i\<close>, the index
  \<open>-k\<close> with \<open>1 \<le> k \<le> N\<close> becomes \<open>N - k\<close> and an index in \<open>[0, N)\<close> stays.
\<close>

lemma wrap_index_cases:
  assumes "i < length index_sizes" and "sint (index_sizes ! i) = N"
  shows "(1 \<le> k \<and> k \<le> N \<longrightarrow>
            (\<exists>w. wrap_index index_sizes i (word_of_int (- k)) = Some w \<and> sint w = N - k))
       \<and> (0 \<le> j \<and> j < N \<longrightarrow> wrap_index index_sizes i (word_of_int j) = Some (word_of_int j))"
proof -
  have Nb: "N < 2 ^ 63" "- (2 ^ 63) \<le> N"
    using sint_lt[of "index_sizes ! i"] sint_ge[of "index_sizes ! i"] assms(2) by auto
  have A: "\<exists>w. wrap_index index_sizes i (word_of_int (- k)) = Some w \<and> sint w = N - k"
    if k: "1 \<le> k" "k \<le> N"
  proof -
    have sk: "sint (word_of_int (- k) :: int64_t) = - k"
      by (rule sint_of_int_eq) (use k Nb in auto)
    then have neg: "(word_of_int (- k) :: int64_t) <s 0"
      using k by (simp add: word_sless_alt)
    have "index_sizes ! i = word_of_int N" using assms(2) by auto
    then have "(word_of_int (- k) :: int64_t) + index_sizes ! i = word_of_int (N - k)" by simp
    moreover have "sint (word_of_int (N - k) :: int64_t) = N - k"
      by (rule sint_of_int_eq) (use k Nb in auto)
    ultimately show ?thesis using neg assms(1) by (simp add: wrap_index_def)
  qed
  have B: "wrap_index index_sizes i (word_of_int j) = Some (word_of_int j)"
    if j: "0 \<le> j" "j < N"
  proof -
    have "sint (word_of_int j :: int64_t) = j"
      by (rule sint_of_int_eq) (use j Nb in auto)
    then have "\<not> (word_of_int j :: int64_t) <s 0" using j by (simp add: word_sless_alt)
    then show ?thesis by (simp add: wrap_index_def)
  qed
  from A B show ?thesis by blast
qed

section \<open>The precomputation kernel and \<open>get_idx\<close>\<close>

lemma kernel_index_offsets_loop_get_idx:
  assumes "ti < length d"
  shows "kernel_index_offsets_loop strides d S n ti dim idx =
         map_option (\<lambda>v. d[ti := v]) (get_idx_loop S n strides dim idx (d ! ti))"
  using assms
proof (induction strides d S n ti dim idx rule: kernel_index_offsets_loop.induct)
  case (1 strides d S n ti dim idx)
  show ?case
  proof (cases "dim < n \<and> dim < length S \<and> dim < length strides \<and> S ! dim \<noteq> 0")
    case False
    then show ?thesis using "1.prems"
      by (subst kernel_index_offsets_loop.simps, subst get_idx_loop.simps) auto
  next
    case True
    show ?thesis
      using True "1.prems" "1.IH"[OF _ _ refl refl]
      by (subst kernel_index_offsets_loop.simps, subst get_idx_loop.simps) (simp add: Let_def)
  qed
qed

text \<open>
  Claim C8. For a thread id in \<open>[0, num_offsets)\<close>, \<open>data_offsets\<close> having \<open>num_offsets\<close>
  entries, \<open>kernel_index_offsets\<close> stores at the position of the thread id the vector
  that \<open>get_idx\<close> computes for that thread id, leaves the other entries as they are, and
  is undefined exactly where \<open>get_idx\<close> is. Over the shape \<open>[5]\<close> with the stride
  \<open>(1, 0, 0)\<close> and 5 threads the stored offsets are 0, 1, 2, 3, 4.
\<close>

theorem kernel_index_offsets_stores_get_idx:
  assumes "thread_index < num_offsets" and "length data_offsets = unat num_offsets"
  shows "kernel_index_offsets strides data_offsets iter_shape num_dimensions num_offsets thread_index
           = map_option (\<lambda>v. data_offsets[unat thread_index := v])
               (get_idx thread_index iter_shape num_dimensions strides)
       \<and> grid (\<lambda>d t. kernel_index_offsets [Uint3 1 0 0] d [5] 1 5 t) [0, 1, 2, 3, 4]
           [Uint3 9 9 9, Uint3 9 9 9, Uint3 9 9 9, Uint3 9 9 9, Uint3 9 9 9]
           = Some [Uint3 0 0 0, Uint3 1 0 0, Uint3 2 0 0, Uint3 3 0 0, Uint3 4 0 0]"
proof -
  have "unat thread_index < length data_offsets"
    using assms by (simp add: word_less_nat_alt)
  then have "kernel_index_offsets strides data_offsets iter_shape num_dimensions num_offsets
               thread_index
             = map_option (\<lambda>v. data_offsets[unat thread_index := v])
                 (get_idx thread_index iter_shape num_dimensions strides)"
    by (simp add: kernel_index_offsets_def get_idx_def kernel_index_offsets_loop_get_idx)
  moreover have "grid (\<lambda>d t. kernel_index_offsets [Uint3 1 0 0] d [5] 1 5 t) [0, 1, 2, 3, 4]
           [Uint3 9 9 9, Uint3 9 9 9, Uint3 9 9 9, Uint3 9 9 9, Uint3 9 9 9]
           = Some [Uint3 0 0 0, Uint3 1 0 0, Uint3 2 0 0, Uint3 3 0 0, Uint3 4 0 0]"
    by (simp add: kernel_index_offsets_def kernel_index_offsets_loop.simps
          uint3_zero_def uint3_add_def uint3_scale_def)
  ultimately show ?thesis by simp
qed

theorem kernel_index_offsets_stores_get_idx_witness:
  "kernel_index_offsets [Uint3 4 4 0, Uint3 12 0 8]
     [Uint3 9 9 9, Uint3 9 9 9, Uint3 9 9 9, Uint3 9 9 9, Uint3 9 9 9, Uint3 9 9 9, Uint3 9 9 9,
      Uint3 9 9 9, Uint3 9 9 9] [3, 3] 2 9 7
   = Some [Uint3 9 9 9, Uint3 9 9 9, Uint3 9 9 9, Uint3 9 9 9, Uint3 9 9 9, Uint3 9 9 9, Uint3 9 9 9,
      Uint3 28 4 16, Uint3 9 9 9]
   \<and> get_idx 7 [3, 3] 2 [Uint3 4 4 0, Uint3 12 0 8] = Some (Uint3 28 4 16)"
proof -
  have g: "get_idx 7 [3, 3] 2 [Uint3 4 4 0, Uint3 12 0 8] = Some (Uint3 28 4 16)"
    by (simp add: get_idx_def get_idx_loop.simps uint3_zero_def uint3_add_def uint3_scale_def)
  show ?thesis
    using kernel_index_offsets_stores_get_idx[of 7 9
        "[Uint3 9 9 9, Uint3 9 9 9, Uint3 9 9 9, Uint3 9 9 9, Uint3 9 9 9, Uint3 9 9 9, Uint3 9 9 9,
          Uint3 9 9 9, Uint3 9 9 9]" "[Uint3 4 4 0, Uint3 12 0 8]" "[3, 3]" 2] g
    by simp
qed

text \<open>
  Claim C10. The result of \<open>kernel_index_offsets\<close> does not depend on \<open>num_offsets\<close>: with
  all other inputs equal, a thread produces the same array, defined or not, for any two
  values of the parameter.
\<close>

theorem kernel_index_offsets_ignores_num_offsets:
  "kernel_index_offsets strides data_offsets iter_shape num_dimensions n1 thread_index
   = kernel_index_offsets strides data_offsets iter_shape num_dimensions n2 thread_index"
  by (simp add: kernel_index_offsets_def)

section \<open>The indirect offset in closed form\<close>

lemma index_offset_loop_unfold:
  "index_offset_loop cmem AB sizes istr n offsets i off =
     (if i < n then
        (case normalized_index cmem AB sizes offsets i of
           None \<Rightarrow> None
         | Some index \<Rightarrow>
             (if i < length istr
              then index_offset_loop cmem AB sizes istr n offsets (Suc i) (off + index * istr ! i)
              else None))
      else Some off)"
  by (subst index_offset_loop.simps) (simp add: normalized_index_def split: option.splits)

lemma index_offset_loop_iff:
  "index_offset_loop cmem AB sizes istr n offsets i off = Some r \<longleftrightarrow>
     (\<exists>ixs. length ixs = n - i
        \<and> (\<forall>k < n - i. normalized_index cmem AB sizes offsets (i + k) = Some (ixs ! k)
                        \<and> i + k < length istr)
        \<and> r = off + (\<Sum>k < n - i. ixs ! k * istr ! (i + k)))"
proof (induction "n - i" arbitrary: i off)
  case 0
  then show ?case by (subst index_offset_loop_unfold) auto
next
  case (Suc m)
  then have lt: "i < n" and m: "m = n - Suc i" by auto
  have nm: "n - i = Suc m" using Suc by simp
  show ?case
  proof
    assume L: "index_offset_loop cmem AB sizes istr n offsets i off = Some r"
    then obtain index where ix: "normalized_index cmem AB sizes offsets i = Some index"
      and il: "i < length istr"
      and rest: "index_offset_loop cmem AB sizes istr n offsets (Suc i) (off + index * istr ! i) = Some r"
      using lt by (subst (asm) index_offset_loop_unfold) (auto split: option.splits if_splits)
    from rest Suc.hyps(1)[OF m] obtain ixs where ixs: "length ixs = n - Suc i"
      "\<forall>k < n - Suc i. normalized_index cmem AB sizes offsets (Suc i + k) = Some (ixs ! k)
                        \<and> Suc i + k < length istr"
      "r = off + index * istr ! i + (\<Sum>k < n - Suc i. ixs ! k * istr ! (Suc i + k))"
      by auto
    have a: "length (index # ixs) = n - i" using ixs(1) lt by simp
    have b: "\<forall>k < n - i. normalized_index cmem AB sizes offsets (i + k) = Some ((index # ixs) ! k)
                        \<and> i + k < length istr"
    proof (intro allI impI)
      fix k assume "k < n - i"
      then show "normalized_index cmem AB sizes offsets (i + k) = Some ((index # ixs) ! k)
                        \<and> i + k < length istr"
        using ix il ixs(2) by (cases k) auto
    qed
    have c: "r = off + (\<Sum>k < n - i. (index # ixs) ! k * istr ! (i + k))"
      unfolding nm sum.lessThan_Suc_shift using ixs(3) m by simp
    from a b c show "\<exists>ixs. length ixs = n - i
        \<and> (\<forall>k < n - i. normalized_index cmem AB sizes offsets (i + k) = Some (ixs ! k)
                        \<and> i + k < length istr)
        \<and> r = off + (\<Sum>k < n - i. ixs ! k * istr ! (i + k))" by blast
  next
    assume "\<exists>ixs. length ixs = n - i
        \<and> (\<forall>k < n - i. normalized_index cmem AB sizes offsets (i + k) = Some (ixs ! k)
                        \<and> i + k < length istr)
        \<and> r = off + (\<Sum>k < n - i. ixs ! k * istr ! (i + k))"
    then obtain ixs where ixs: "length ixs = n - i"
      "\<forall>k < n - i. normalized_index cmem AB sizes offsets (i + k) = Some (ixs ! k)
                        \<and> i + k < length istr"
      "r = off + (\<Sum>k < n - i. ixs ! k * istr ! (i + k))" by blast
    from ixs(1) nm obtain index ixs' where sp: "ixs = index # ixs'" by (cases ixs) auto
    have ix: "normalized_index cmem AB sizes offsets i = Some index" and il: "i < length istr"
      using ixs(2) lt sp by (auto dest: spec[of _ 0])
    have a: "length ixs' = n - Suc i" using ixs(1) sp by simp
    have b: "\<forall>k < n - Suc i. normalized_index cmem AB sizes offsets (Suc i + k) = Some (ixs' ! k)
                        \<and> Suc i + k < length istr"
    proof (intro allI impI)
      fix k assume "k < n - Suc i"
      then have "Suc k < n - i" by simp
      with ixs(2) sp show "normalized_index cmem AB sizes offsets (Suc i + k) = Some (ixs' ! k)
                        \<and> Suc i + k < length istr"
        by (auto dest: spec[of _ "Suc k"])
    qed
    have c: "r = (off + index * istr ! i) + (\<Sum>k < n - Suc i. ixs' ! k * istr ! (Suc i + k))"
      using ixs(3) unfolding nm sum.lessThan_Suc_shift sp using m by simp
    from a b c Suc.hyps(1)[OF m, of "off + index * istr ! i"]
    have "index_offset_loop cmem AB sizes istr n offsets (Suc i) (off + index * istr ! i) = Some r"
      by blast
    then show "index_offset_loop cmem AB sizes istr n offsets i off = Some r"
      using lt ix il by (subst index_offset_loop_unfold) simp
  qed
qed

lemma index_offset_loop_iff0:
  "index_offset_loop cmem AB sizes istr n offsets 0 0 = Some r \<longleftrightarrow>
     (\<exists>ixs. length ixs = n
        \<and> (\<forall>k < n. normalized_index cmem AB sizes offsets k = Some (ixs ! k) \<and> k < length istr)
        \<and> r = (\<Sum>k < n. ixs ! k * istr ! k))"
  using index_offset_loop_iff[of cmem AB sizes istr n offsets 0 0 r] by simp

lemma deref_Some_iff:
  "deref sz buf a = Some p \<longleftrightarrow> 0 < sz \<and> int sz * int p = a \<and> p < length buf"
proof
  assume "deref sz buf a = Some p"
  then have h: "0 < sz" "0 \<le> a" "a mod int sz = 0" "nat (a div int sz) < length buf"
    "p = nat (a div int sz)"
    by (auto simp: deref_def split: if_splits)
  have "0 \<le> a div int sz" using h(1,2) by (simp add: pos_imp_zdiv_nonneg_iff)
  then have "int p = a div int sz" using h(5) by simp
  then have "int sz * int p = a" using h(3) by (metis mult_div_mod_eq add.right_neutral)
  then show "0 < sz \<and> int sz * int p = a \<and> p < length buf" using h by simp
next
  assume "0 < sz \<and> int sz * int p = a \<and> p < length buf"
  then show "deref sz buf a = Some p" by (auto simp: deref_def)
qed

lemma deref_length: "length b1 = length b2 \<Longrightarrow> deref sz b1 a = deref sz b2 a"
  by (simp add: deref_def)

text \<open>The definitions that evaluate a kernel on concrete arguments.\<close>

lemmas kernel_eval = get_idx_def get_idx_loop.simps uint3_zero_def uint3_add_def uint3_scale_def
  index_offset_loop.simps index_array_def wrap_index_def deref_def word_sless_alt

section \<open>The gather kernel\<close>

lemma index_select_Some_iff:
  "index_select sz cmem AB sizes istr inputData outputData ni shape nd strides t = Some out' \<longleftrightarrow>
    (\<exists>offsets ixs out inp. get_idx t shape nd strides = Some offsets
       \<and> length ixs = unat ni
       \<and> (\<forall>k < unat ni. normalized_index cmem AB sizes offsets k = Some (ixs ! k) \<and> k < length istr)
       \<and> 0 < sz
       \<and> int sz * int out = int (unat (uint3_x offsets)) \<and> out < length outputData
       \<and> int sz * int inp = int (unat (uint3_y offsets)) + sint (\<Sum>k < unat ni. ixs ! k * istr ! k)
       \<and> inp < length inputData
       \<and> out' = outputData[out := inputData ! inp])"
  unfolding index_select_def index_select_addrs_def
  by (auto simp: bind_eq_Some_conv deref_Some_iff index_offset_loop_iff0)

lemma index_select_rows:
  "grid (\<lambda>out t. index_select 4 (\<lambda>p. if p = 100 then Some [- 1, 0, 2] else None)
            (Modern [IndexAB_modern 100]) [4] [12]
            [0, 1, 2, 10, 11, 12, 20, 21, 22, 30, 31, 32 :: int] out 1 [3, 3] 2
            [Uint3 4 4 0, Uint3 12 0 8] t)
        [0, 1, 2, 3, 4, 5, 6, 7, 8] [0, 0, 0, 0, 0, 0, 0, 0, 0]
   = Some [30, 31, 32, 0, 1, 2, 20, 21, 22]"
  by (simp add: index_select_def index_select_addrs_def kernel_eval)

lemma index_select_thread_0: "index_select 4 (\<lambda>p. if p = 100 then Some [- 1, 0, 2] else None)
            (Modern [IndexAB_modern 100]) [4] [12]
            [0, 1, 2, 10, 11, 12, 20, 21, 22, 30, 31, 32 :: int] [0, 0, 0, 0, 0, 0, 0, 0, 0] 1 [3, 3] 2
            [Uint3 4 4 0, Uint3 12 0 8] 0 = Some [30, 0, 0, 0, 0, 0, 0, 0, 0]"
  by (simp add: index_select_def index_select_addrs_def kernel_eval)

text \<open>
  Claim C5. A thread of \<open>index_select\<close> is defined exactly when \<open>get_idx\<close> is, every index
  array has an entry at \<open>offsets.z / 8\<close> that normalizes, and the two addresses hold an
  element of type \<open>T\<close>. It then reads the one element of \<open>inputData\<close> at the byte offset
  \<open>offsets.y + offset\<close>, where \<open>offset\<close> is the 64-bit sum over the indexed dimensions of
  the normalized index times the index stride, and stores it into \<open>outputData\<close> at the byte
  offset \<open>offsets.x\<close>, changing nothing else. On a row-major source of 4 rows and 3 columns
  of 4-byte elements, indexed in dimension 0 of size 4 with the indices -1, 0, 2, a launch of
  9 threads produces the rows 3, 0, 2 of the source in that order.
\<close>

theorem index_select_copies_one_element:
  "(index_select sz cmem AB sizes istr inputData outputData ni shape nd strides t = Some out' \<longleftrightarrow>
    (\<exists>offsets ixs out inp. get_idx t shape nd strides = Some offsets
       \<and> length ixs = unat ni
       \<and> (\<forall>k < unat ni. normalized_index cmem AB sizes offsets k = Some (ixs ! k) \<and> k < length istr)
       \<and> 0 < sz
       \<and> int sz * int out = int (unat (uint3_x offsets)) \<and> out < length outputData
       \<and> int sz * int inp = int (unat (uint3_y offsets)) + sint (\<Sum>k < unat ni. ixs ! k * istr ! k)
       \<and> inp < length inputData
       \<and> out' = outputData[out := inputData ! inp]))
 \<and> grid (\<lambda>out t. index_select 4 (\<lambda>p. if p = 100 then Some [- 1, 0, 2] else None)
            (Modern [IndexAB_modern 100]) [4] [12]
            [0, 1, 2, 10, 11, 12, 20, 21, 22, 30, 31, 32 :: int] out 1 [3, 3] 2
            [Uint3 4 4 0, Uint3 12 0 8] t)
        [0, 1, 2, 3, 4, 5, 6, 7, 8] [0, 0, 0, 0, 0, 0, 0, 0, 0]
   = Some [30, 31, 32, 0, 1, 2, 20, 21, 22]"
  using index_select_Some_iff[of sz cmem AB sizes istr inputData outputData ni shape nd strides t out']
    index_select_rows
  by blast

theorem index_select_copies_one_element_witness:
  "\<exists>offsets ixs out inp.
      get_idx 0 [3, 3] 2 [Uint3 4 4 0, Uint3 12 0 8] = Some offsets
    \<and> int 4 * int out = int (unat (uint3_x offsets))
    \<and> int 4 * int inp = int (unat (uint3_y offsets)) + sint (\<Sum>k < unat (1 :: uint). ixs ! k * [12 :: int64_t] ! k)
    \<and> [30, 0, 0, 0, 0, 0, 0, 0, 0 :: int]
        = [0, 0, 0, 0, 0, 0, 0, 0, 0][out := [0, 1, 2, 10, 11, 12, 20, 21, 22, 30, 31, 32] ! inp]"
  using index_select_copies_one_element[THEN conjunct1, THEN iffD1, OF index_select_thread_0] by blast

section \<open>The scatter kernel\<close>

lemma index_put_Some_iff:
  "index_put sz cmem AB sizes istr inputData outputData ni shape nd strides t = Some out' \<longleftrightarrow>
    (\<exists>offsets ixs out inp. get_idx t shape nd strides = Some offsets
       \<and> length ixs = unat ni
       \<and> (\<forall>k < unat ni. normalized_index cmem AB sizes offsets k = Some (ixs ! k) \<and> k < length istr)
       \<and> 0 < sz
       \<and> int sz * int out = int (unat (uint3_x offsets)) + sint (\<Sum>k < unat ni. ixs ! k * istr ! k)
       \<and> out < length outputData
       \<and> int sz * int inp = int (unat (uint3_y offsets))
       \<and> inp < length inputData
       \<and> out' = outputData[out := inputData ! inp])"
  unfolding index_put_def index_put_addrs_def
  by (auto simp: bind_eq_Some_conv deref_Some_iff index_offset_loop_iff0)

lemma index_put_index_select_addrs:
  "index_put_addrs sz cmem AB sizes istr inputData outputData ni S nd strides t = Some (q, j)
   \<and> index_select_addrs sz cmem AB sizes istr inputData outputData ni S nd strides t = Some (p, i)
   \<longrightarrow> (\<exists>offsets offset. get_idx t S nd strides = Some offsets
         \<and> index_offset_loop cmem AB sizes istr (unat ni) offsets 0 0 = Some offset
         \<and> int sz * int q = int (unat (uint3_x offsets)) + sint offset
         \<and> int sz * int j = int (unat (uint3_y offsets))
         \<and> int sz * int p = int (unat (uint3_x offsets))
         \<and> int sz * int i = int (unat (uint3_y offsets)) + sint offset)"
  by (auto simp: index_put_addrs_def index_select_addrs_def bind_eq_Some_conv deref_Some_iff)

lemmas kernel_addrs_eval = index_put_addrs_def index_select_addrs_def index_put_def index_select_def
  kernel_eval

lemma index_put_thread_0: "index_put 4 (\<lambda>p. if p = 100 then Some [1, 0] else None)
       (Modern [IndexAB_modern 100]) [2] [4] [10, 20 :: int] [0, 0] 1 [2] 1 [Uint3 0 4 8] 0
      = Some [0, 10]"
  by (simp add: kernel_addrs_eval)

text \<open>
  Claim C6. A thread of \<open>index_put\<close> is defined under the conditions of \<open>index_select\<close> on
  \<open>get_idx\<close> and the index arrays, computes the same \<open>offsets\<close> and the same indirect
  \<open>offset\<close>, and applies \<open>offset\<close> to the output side: it reads the one element of
  \<open>inputData\<close> at the byte offset \<open>offsets.y\<close> and stores it into \<open>outputData\<close> at the byte
  offset \<open>offsets.x + offset\<close>, changing nothing else. On the same arguments the addresses
  of the two kernels come from one \<open>offsets\<close> and one \<open>offset\<close>.
\<close>

theorem index_put_copies_one_element:
  "(index_put sz cmem AB sizes istr inputData outputData ni shape nd strides t = Some out' \<longleftrightarrow>
    (\<exists>offsets ixs out inp. get_idx t shape nd strides = Some offsets
       \<and> length ixs = unat ni
       \<and> (\<forall>k < unat ni. normalized_index cmem AB sizes offsets k = Some (ixs ! k) \<and> k < length istr)
       \<and> 0 < sz
       \<and> int sz * int out = int (unat (uint3_x offsets)) + sint (\<Sum>k < unat ni. ixs ! k * istr ! k)
       \<and> out < length outputData
       \<and> int sz * int inp = int (unat (uint3_y offsets))
       \<and> inp < length inputData
       \<and> out' = outputData[out := inputData ! inp]))
 \<and> (index_put_addrs sz cmem AB sizes istr inputData outputData ni shape nd strides t = Some (q, j)
   \<and> index_select_addrs sz cmem AB sizes istr inputData outputData ni shape nd strides t = Some (p, i)
   \<longrightarrow> (\<exists>offsets offset. get_idx t shape nd strides = Some offsets
         \<and> index_offset_loop cmem AB sizes istr (unat ni) offsets 0 0 = Some offset
         \<and> int sz * int q = int (unat (uint3_x offsets)) + sint offset
         \<and> int sz * int j = int (unat (uint3_y offsets))
         \<and> int sz * int p = int (unat (uint3_x offsets))
         \<and> int sz * int i = int (unat (uint3_y offsets)) + sint offset))"
  using index_put_Some_iff[of sz cmem AB sizes istr inputData outputData ni shape nd strides t out']
    index_put_index_select_addrs[of sz cmem AB sizes istr inputData outputData ni shape nd strides t q j p i]
  by blast

theorem index_put_copies_one_element_witness:
  "\<exists>offsets ixs out inp.
      get_idx 0 [2] 1 [Uint3 0 4 8] = Some offsets
    \<and> int 4 * int out = int (unat (uint3_x offsets)) + sint (\<Sum>k < unat (1 :: uint). ixs ! k * [4 :: int64_t] ! k)
    \<and> int 4 * int inp = int (unat (uint3_y offsets))
    \<and> [0, 10 :: int] = [0, 0][out := [10, 20] ! inp]"
  using index_put_copies_one_element[THEN conjunct1, THEN iffD1, OF index_put_thread_0] by blast

section \<open>The normalization in the four kernels\<close>

text \<open>
  The normalized index of a dimension, from the entry of the index table of that
  dimension, in either representation of the table.
\<close>

lemma normalized_index_cases:
  assumes "i < length index_sizes" and "sint (index_sizes ! i) = N"
    and tab: "(AB = Modern entries \<and> i < length entries \<and> cmem (indexArray_modern (entries ! i)) = Some arr)
            \<or> (AB = Legacy (IndexAB_legacy ptrs) \<and> i < 16 \<and> i < length ptrs \<and> cmem (ptrs ! i) = Some arr)"
    and pos: "unat (uint3_z offsets) div 8 < length arr"
  shows "(1 \<le> k \<and> k \<le> N \<and> arr ! (unat (uint3_z offsets) div 8) = word_of_int (- k) \<longrightarrow>
            (\<exists>w. normalized_index cmem AB index_sizes offsets i = Some w \<and> sint w = N - k))
       \<and> (0 \<le> j \<and> j < N \<and> arr ! (unat (uint3_z offsets) div 8) = word_of_int j \<longrightarrow>
            normalized_index cmem AB index_sizes offsets i = Some (word_of_int j))"
proof -
  have ia: "index_array cmem AB i = Some arr"
    using tab by (auto simp: index_array_def)
  have n: "normalized_index cmem AB index_sizes offsets i
           = wrap_index index_sizes i (arr ! (unat (uint3_z offsets) div 8))"
    using ia pos by (simp add: normalized_index_def)
  show ?thesis
    using wrap_index_cases[OF assms(1,2), of k j] unfolding n by auto
qed

lemma index_select_addrs_iff:
  "index_select_addrs sz cmem AB sizes istr inputData outputData ni S nd strides t = Some (p, q) \<longleftrightarrow>
    (\<exists>offsets ixs. get_idx t S nd strides = Some offsets \<and> length ixs = unat ni
       \<and> (\<forall>k < unat ni. normalized_index cmem AB sizes offsets k = Some (ixs ! k) \<and> k < length istr)
       \<and> deref sz outputData (int (unat (uint3_x offsets))) = Some p
       \<and> deref sz inputData (int (unat (uint3_y offsets)) + sint (\<Sum>k < unat ni. ixs ! k * istr ! k))
           = Some q)"
  unfolding index_select_addrs_def
  by (auto simp: bind_eq_Some_conv index_offset_loop_iff0)

lemma index_put_addrs_iff:
  "index_put_addrs sz cmem AB sizes istr inputData outputData ni S nd strides t = Some (p, q) \<longleftrightarrow>
    (\<exists>offsets ixs. get_idx t S nd strides = Some offsets \<and> length ixs = unat ni
       \<and> (\<forall>k < unat ni. normalized_index cmem AB sizes offsets k = Some (ixs ! k) \<and> k < length istr)
       \<and> deref sz outputData (int (unat (uint3_x offsets)) + sint (\<Sum>k < unat ni. ixs ! k * istr ! k))
           = Some p
       \<and> deref sz inputData (int (unat (uint3_y offsets))) = Some q)"
  unfolding index_put_addrs_def
  by (auto simp: bind_eq_Some_conv index_offset_loop_iff0)

lemma native_addrs_iff:
  "index_put_accumulate_native_dtypes_addrs cmem AB sizes istr inputData outputData ni S nd strides t
     = Some (p, q) \<longleftrightarrow>
    (\<exists>offsets ixs. get_idx t S nd strides = Some offsets \<and> length ixs = unat ni
       \<and> (\<forall>k < unat ni. normalized_index cmem AB sizes offsets k = Some (ixs ! k) \<and> k < length istr)
       \<and> deref 4 outputData (int (unat (uint3_x offsets)) + sint (\<Sum>k < unat ni. ixs ! k * istr ! k))
           = Some p
       \<and> deref 4 inputData (int (unat (uint3_y offsets))) = Some q)"
  unfolding index_put_accumulate_native_dtypes_addrs_def
  by (auto simp: bind_eq_Some_conv index_offset_loop_iff0)

lemma atomic_index_put_accumulate_iff:
  "atomic_index_put_accumulate cmem AB sizes istr inputData outputData ni S nd strides t
     = Some (p, v) \<longleftrightarrow>
    (\<exists>offsets ixs q. get_idx t S nd strides = Some offsets \<and> length ixs = unat ni
       \<and> (\<forall>k < unat ni. normalized_index cmem AB sizes offsets k = Some (ixs ! k) \<and> k < length istr)
       \<and> deref 4 outputData (int (unat (uint3_x offsets)) + sint (\<Sum>k < unat ni. ixs ! k * istr ! k))
           = Some p
       \<and> deref 4 inputData (int (unat (uint3_y offsets))) = Some q \<and> v = inputData ! q)"
  unfolding atomic_index_put_accumulate_def
  by (auto simp: bind_eq_Some_conv index_offset_loop_iff0)

lemma index_select_normalized:
  "index_select sz cmem AB sizes istr inputData outputData ni S nd strides t = Some out' \<longleftrightarrow>
    (\<exists>offsets ixs p q. get_idx t S nd strides = Some offsets \<and> length ixs = unat ni
       \<and> (\<forall>k < unat ni. normalized_index cmem AB sizes offsets k = Some (ixs ! k) \<and> k < length istr)
       \<and> deref sz outputData (int (unat (uint3_x offsets))) = Some p
       \<and> deref sz inputData (int (unat (uint3_y offsets)) + sint (\<Sum>k < unat ni. ixs ! k * istr ! k))
           = Some q
       \<and> out' = outputData[p := inputData ! q])"
  unfolding index_select_def
  by (auto simp: bind_eq_Some_conv index_select_addrs_iff)

lemma index_put_normalized:
  "index_put sz cmem AB sizes istr inputData outputData ni S nd strides t = Some out' \<longleftrightarrow>
    (\<exists>offsets ixs p q. get_idx t S nd strides = Some offsets \<and> length ixs = unat ni
       \<and> (\<forall>k < unat ni. normalized_index cmem AB sizes offsets k = Some (ixs ! k) \<and> k < length istr)
       \<and> deref sz outputData (int (unat (uint3_x offsets)) + sint (\<Sum>k < unat ni. ixs ! k * istr ! k))
           = Some p
       \<and> deref sz inputData (int (unat (uint3_y offsets))) = Some q
       \<and> out' = outputData[p := inputData ! q])"
  unfolding index_put_def
  by (auto simp: bind_eq_Some_conv index_put_addrs_iff)

lemma native_normalized:
  "index_put_accumulate_native_dtypes cmem AB sizes istr inputData outputData ni S nd strides t
     = Some out' \<longleftrightarrow>
    (\<exists>offsets ixs p q. get_idx t S nd strides = Some offsets \<and> length ixs = unat ni
       \<and> (\<forall>k < unat ni. normalized_index cmem AB sizes offsets k = Some (ixs ! k) \<and> k < length istr)
       \<and> deref 4 outputData (int (unat (uint3_x offsets)) + sint (\<Sum>k < unat ni. ixs ! k * istr ! k))
           = Some p
       \<and> deref 4 inputData (int (unat (uint3_y offsets))) = Some q
       \<and> out' = atomic_fetch_add_explicit outputData p (inputData ! q))"
  unfolding index_put_accumulate_native_dtypes_def
  by (auto simp: bind_eq_Some_conv native_addrs_iff)

lemmas accumulate_eval = index_put_accumulate_native_dtypes_def
  index_put_accumulate_native_dtypes_addrs_def atomic_index_put_accumulate_def
  atomic_fetch_add_explicit_def

text \<open>
  Claim C4. For an indexed dimension \<open>i\<close> of size \<open>N\<close>, the normalization maps the index
  \<open>-k\<close> with \<open>1 \<le> k \<le> N\<close> to \<open>N - k\<close> and leaves an index in \<open>[0, N)\<close> unchanged; so does
  the normalized index that a thread reads at \<open>offsets.z / 8\<close> from the array that entry
  \<open>i\<close> of the index table points to, in either representation of the table. Every
  indexing kernel performs it: a thread of \<open>index_select\<close>, of \<open>index_put\<close>, of
  \<open>index_put_accumulate_native_dtypes\<close> and of \<open>atomic_index_put_accumulate\<close> is defined
  exactly when every indexed dimension below \<open>num_indices\<close> has a normalized index, and the
  indirect offset it applies is the 64-bit sum of these normalized indices times the index
  strides.
\<close>

theorem indexing_kernels_normalize_index:
  "(i < length index_sizes \<and> sint (index_sizes ! i) = N \<longrightarrow>
      (1 \<le> k \<and> k \<le> N \<longrightarrow>
         (\<exists>w. wrap_index index_sizes i (word_of_int (- k)) = Some w \<and> sint w = N - k))
    \<and> (0 \<le> j \<and> j < N \<longrightarrow> wrap_index index_sizes i (word_of_int j) = Some (word_of_int j)))
 \<and> (i < length index_sizes \<and> sint (index_sizes ! i) = N
     \<and> ((AB = Modern entries \<and> i < length entries
            \<and> cmem (indexArray_modern (entries ! i)) = Some arr)
        \<or> (AB = Legacy (IndexAB_legacy ptrs) \<and> i < 16 \<and> i < length ptrs
            \<and> cmem (ptrs ! i) = Some arr))
     \<and> unat (uint3_z offs) div 8 < length arr \<longrightarrow>
      (1 \<le> k \<and> k \<le> N \<and> arr ! (unat (uint3_z offs) div 8) = word_of_int (- k) \<longrightarrow>
         (\<exists>w. normalized_index cmem AB index_sizes offs i = Some w \<and> sint w = N - k))
    \<and> (0 \<le> j \<and> j < N \<and> arr ! (unat (uint3_z offs) div 8) = word_of_int j \<longrightarrow>
         normalized_index cmem AB index_sizes offs i = Some (word_of_int j)))
 \<and> (index_select sz cmem AB index_sizes istr inputData outputData ni S nd strides t = Some out' \<longleftrightarrow>
    (\<exists>offsets ixs p q. get_idx t S nd strides = Some offsets \<and> length ixs = unat ni
       \<and> (\<forall>k < unat ni. normalized_index cmem AB index_sizes offsets k = Some (ixs ! k)
                          \<and> k < length istr)
       \<and> deref sz outputData (int (unat (uint3_x offsets))) = Some p
       \<and> deref sz inputData (int (unat (uint3_y offsets)) + sint (\<Sum>k < unat ni. ixs ! k * istr ! k))
           = Some q
       \<and> out' = outputData[p := inputData ! q]))
 \<and> (index_put sz cmem AB index_sizes istr inputData outputData ni S nd strides t = Some out' \<longleftrightarrow>
    (\<exists>offsets ixs p q. get_idx t S nd strides = Some offsets \<and> length ixs = unat ni
       \<and> (\<forall>k < unat ni. normalized_index cmem AB index_sizes offsets k = Some (ixs ! k)
                          \<and> k < length istr)
       \<and> deref sz outputData (int (unat (uint3_x offsets)) + sint (\<Sum>k < unat ni. ixs ! k * istr ! k))
           = Some p
       \<and> deref sz inputData (int (unat (uint3_y offsets))) = Some q
       \<and> out' = outputData[p := inputData ! q]))
 \<and> (index_put_accumulate_native_dtypes cmem AB index_sizes istr inputDataI outputDataI ni S nd strides t
       = Some outI' \<longleftrightarrow>
    (\<exists>offsets ixs p q. get_idx t S nd strides = Some offsets \<and> length ixs = unat ni
       \<and> (\<forall>k < unat ni. normalized_index cmem AB index_sizes offsets k = Some (ixs ! k)
                          \<and> k < length istr)
       \<and> deref 4 outputDataI (int (unat (uint3_x offsets)) + sint (\<Sum>k < unat ni. ixs ! k * istr ! k))
           = Some p
       \<and> deref 4 inputDataI (int (unat (uint3_y offsets))) = Some q
       \<and> outI' = atomic_fetch_add_explicit outputDataI p (inputDataI ! q)))
 \<and> (atomic_index_put_accumulate cmem AB index_sizes istr inputDataF outputDataI ni S nd strides t
       = Some (slot, v) \<longleftrightarrow>
    (\<exists>offsets ixs q. get_idx t S nd strides = Some offsets \<and> length ixs = unat ni
       \<and> (\<forall>k < unat ni. normalized_index cmem AB index_sizes offsets k = Some (ixs ! k)
                          \<and> k < length istr)
       \<and> deref 4 outputDataI (int (unat (uint3_x offsets)) + sint (\<Sum>k < unat ni. ixs ! k * istr ! k))
           = Some slot
       \<and> deref 4 inputDataF (int (unat (uint3_y offsets))) = Some q \<and> v = inputDataF ! q))"
proof (intro conjI)
  show "i < length index_sizes \<and> sint (index_sizes ! i) = N \<longrightarrow>
      (1 \<le> k \<and> k \<le> N \<longrightarrow>
         (\<exists>w. wrap_index index_sizes i (word_of_int (- k)) = Some w \<and> sint w = N - k))
    \<and> (0 \<le> j \<and> j < N \<longrightarrow> wrap_index index_sizes i (word_of_int j) = Some (word_of_int j))"
    using wrap_index_cases[of i index_sizes N k j] by blast
  show "i < length index_sizes \<and> sint (index_sizes ! i) = N
     \<and> ((AB = Modern entries \<and> i < length entries
            \<and> cmem (indexArray_modern (entries ! i)) = Some arr)
        \<or> (AB = Legacy (IndexAB_legacy ptrs) \<and> i < 16 \<and> i < length ptrs
            \<and> cmem (ptrs ! i) = Some arr))
     \<and> unat (uint3_z offs) div 8 < length arr \<longrightarrow>
      (1 \<le> k \<and> k \<le> N \<and> arr ! (unat (uint3_z offs) div 8) = word_of_int (- k) \<longrightarrow>
         (\<exists>w. normalized_index cmem AB index_sizes offs i = Some w \<and> sint w = N - k))
    \<and> (0 \<le> j \<and> j < N \<and> arr ! (unat (uint3_z offs) div 8) = word_of_int j \<longrightarrow>
         normalized_index cmem AB index_sizes offs i = Some (word_of_int j))"
    using normalized_index_cases[of i index_sizes N AB entries cmem arr ptrs offs k j] by blast
qed (rule index_select_normalized index_put_normalized native_normalized
       atomic_index_put_accumulate_iff)+

theorem indexing_kernels_normalize_index_witness:
  "wrap_index [2] 0 (- 1) = Some 1 \<and> wrap_index [2] 0 (- 2) = Some 0 \<and> wrap_index [2] 0 1 = Some 1
 \<and> (\<exists>w. normalized_index (\<lambda>p. if p = 100 then Some [- 1, 0] else None)
          (Modern [IndexAB_modern 100]) [2] (Uint3 0 0 0) 0 = Some w \<and> sint w = 1)
 \<and> (\<exists>offsets ixs p q. get_idx 0 [2] 1 [Uint3 0 4 8] = Some offsets
       \<and> normalized_index (\<lambda>p. if p = 100 then Some [- 1, 0] else None)
            (Modern [IndexAB_modern 100]) [2] offsets 0 = Some (ixs ! 0)
       \<and> deref 4 [0, 0 :: int] (int (unat (uint3_x offsets))) = Some p
       \<and> deref 4 [10, 20 :: int] (int (unat (uint3_y offsets)) + sint (ixs ! 0 * 4)) = Some q
       \<and> [20, 0 :: int] = [0, 0][p := [10, 20] ! q])
 \<and> (\<exists>offsets ixs p q. get_idx 0 [2] 1 [Uint3 0 4 8] = Some offsets
       \<and> normalized_index (\<lambda>p. if p = 100 then Some [- 1, 0] else None)
            (Modern [IndexAB_modern 100]) [2] offsets 0 = Some (ixs ! 0)
       \<and> deref 4 [0, 0 :: int] (int (unat (uint3_x offsets)) + sint (ixs ! 0 * 4)) = Some p
       \<and> deref 4 [10, 20 :: int] (int (unat (uint3_y offsets))) = Some q
       \<and> [0, 10 :: int] = [0, 0][p := [10, 20] ! q])
 \<and> (\<exists>offsets ixs p q. get_idx 0 [2] 1 [Uint3 0 4 8] = Some offsets
       \<and> normalized_index (\<lambda>p. if p = 100 then Some [- 1, 0] else None)
            (Modern [IndexAB_modern 100]) [2] offsets 0 = Some (ixs ! 0)
       \<and> deref 4 [10, 11 :: uint] (int (unat (uint3_x offsets)) + sint (ixs ! 0 * 4)) = Some p
       \<and> deref 4 [5, 7 :: uint] (int (unat (uint3_y offsets))) = Some q
       \<and> [10, 16] = atomic_fetch_add_explicit [10, 11] p ([5, 7] ! q))
 \<and> (\<exists>offsets ixs q. get_idx 0 [2] 1 [Uint3 0 4 8] = Some offsets
       \<and> normalized_index (\<lambda>p. if p = 100 then Some [- 1, 0] else None)
            (Modern [IndexAB_modern 100]) [2] offsets 0 = Some (ixs ! 0)
       \<and> deref 4 [0, 0 :: uint] (int (unat (uint3_x offsets)) + sint (ixs ! 0 * 4)) = Some 1
       \<and> deref 4 [Float 0x3F800000, Float 0xCB800000] (int (unat (uint3_y offsets))) = Some q
       \<and> Float 0x3F800000 = [Float 0x3F800000, Float 0xCB800000] ! q)"
proof -
  let ?cmem = "\<lambda>p. if p = (100 :: nat) then Some [- 1, 0 :: int64_t] else None"
  let ?AB = "Modern [IndexAB_modern 100]"
  note T = indexing_kernels_normalize_index[where i = 0 and index_sizes = "[2]" and N = 2
      and AB = ?AB and entries = "[IndexAB_modern 100]" and cmem = ?cmem and arr = "[- 1, 0]"
      and offs = "Uint3 0 0 0" and sz = 4 and istr = "[4]" and ni = 1 and S = "[2]" and nd = 1
      and strides = "[Uint3 0 4 8]" and t = 0]
  have a: "wrap_index [2] 0 (- 1) = Some 1"
    using T[where k = 1 and j = 1, THEN conjunct1] by (simp add: wrap_index_def)
  have b: "wrap_index [2] 0 (- 2) = Some 0"
    using T[where k = 2 and j = 1, THEN conjunct1] by (simp add: wrap_index_def word_sless_alt)
  have c: "wrap_index [2] 0 1 = Some 1"
    using T[where k = 1 and j = 1, THEN conjunct1] by simp
  have n: "\<exists>w. normalized_index ?cmem ?AB [2] (Uint3 0 0 0) 0 = Some w \<and> sint w = 1"
    using T[where k = 1 and j = 1, THEN conjunct2, THEN conjunct1] by simp
  have ks: "index_select 4 ?cmem ?AB [2] [4] [10, 20 :: int] [0, 0] 1 [2] 1 [Uint3 0 4 8] 0
            = Some [20, 0]"
    by (simp add: kernel_addrs_eval)
  have kp: "index_put 4 ?cmem ?AB [2] [4] [10, 20 :: int] [0, 0] 1 [2] 1 [Uint3 0 4 8] 0
            = Some [0, 10]"
    by (simp add: kernel_addrs_eval)
  have kn: "index_put_accumulate_native_dtypes ?cmem ?AB [2] [4] [5, 7] [10, 11] 1 [2] 1
              [Uint3 0 4 8] 0 = Some [10, 16]"
    by (simp add: accumulate_eval kernel_eval)
  have ka: "atomic_index_put_accumulate ?cmem ?AB [2] [4] [Float 0x3F800000, Float 0xCB800000]
              [0, 0] 1 [2] 1 [Uint3 0 4 8] 0 = Some (1, Float 0x3F800000)"
    by (simp add: accumulate_eval kernel_eval)
  have s: "\<exists>offsets ixs p q. get_idx 0 [2] 1 [Uint3 0 4 8] = Some offsets
       \<and> normalized_index ?cmem ?AB [2] offsets 0 = Some (ixs ! 0)
       \<and> deref 4 [0, 0 :: int] (int (unat (uint3_x offsets))) = Some p
       \<and> deref 4 [10, 20 :: int] (int (unat (uint3_y offsets)) + sint (ixs ! 0 * 4)) = Some q
       \<and> [20, 0 :: int] = [0, 0][p := [10, 20] ! q]"
    using T[where inputData = "[10, 20 :: int]" and outputData = "[0, 0]" and out' = "[20, 0]",
        THEN conjunct2, THEN conjunct2, THEN conjunct1, THEN iffD1, OF ks]
    by simp blast
  have p: "\<exists>offsets ixs p q. get_idx 0 [2] 1 [Uint3 0 4 8] = Some offsets
       \<and> normalized_index ?cmem ?AB [2] offsets 0 = Some (ixs ! 0)
       \<and> deref 4 [0, 0 :: int] (int (unat (uint3_x offsets)) + sint (ixs ! 0 * 4)) = Some p
       \<and> deref 4 [10, 20 :: int] (int (unat (uint3_y offsets))) = Some q
       \<and> [0, 10 :: int] = [0, 0][p := [10, 20] ! q]"
    using T[where inputData = "[10, 20 :: int]" and outputData = "[0, 0]" and out' = "[0, 10]",
        THEN conjunct2, THEN conjunct2, THEN conjunct2, THEN conjunct1, THEN iffD1, OF kp]
    by simp blast
  have na: "\<exists>offsets ixs p q. get_idx 0 [2] 1 [Uint3 0 4 8] = Some offsets
       \<and> normalized_index ?cmem ?AB [2] offsets 0 = Some (ixs ! 0)
       \<and> deref 4 [10, 11 :: uint] (int (unat (uint3_x offsets)) + sint (ixs ! 0 * 4)) = Some p
       \<and> deref 4 [5, 7 :: uint] (int (unat (uint3_y offsets))) = Some q
       \<and> [10, 16] = atomic_fetch_add_explicit [10, 11] p ([5, 7] ! q)"
    using T[where inputDataI = "[5, 7]" and outputDataI = "[10, 11]" and outI' = "[10, 16]",
        THEN conjunct2, THEN conjunct2, THEN conjunct2, THEN conjunct2, THEN conjunct1, THEN iffD1, OF kn]
    by simp blast
  have at: "\<exists>offsets ixs q. get_idx 0 [2] 1 [Uint3 0 4 8] = Some offsets
       \<and> normalized_index ?cmem ?AB [2] offsets 0 = Some (ixs ! 0)
       \<and> deref 4 [0, 0 :: uint] (int (unat (uint3_x offsets)) + sint (ixs ! 0 * 4)) = Some 1
       \<and> deref 4 [Float 0x3F800000, Float 0xCB800000] (int (unat (uint3_y offsets))) = Some q
       \<and> Float 0x3F800000 = [Float 0x3F800000, Float 0xCB800000] ! q"
    using T[where inputDataF = "[Float 0x3F800000, Float 0xCB800000]" and outputDataI = "[0, 0]"
          and slot = 1 and v = "Float 0x3F800000",
        THEN conjunct2, THEN conjunct2, THEN conjunct2, THEN conjunct2, THEN conjunct2, THEN iffD1, OF ka]
    by simp blast
  from a b c n s p na at show ?thesis by blast
qed

section \<open>The two representations of the index table\<close>

lemma index_offset_loop_cong:
  assumes "\<forall>i < n. index_array cmem A i = index_array cmem B i"
  shows "index_offset_loop cmem A sizes istr n offsets i off
       = index_offset_loop cmem B sizes istr n offsets i off"
  using assms
proof (induction cmem A sizes istr n offsets i off rule: index_offset_loop.induct)
  case (1 cmem A sizes istr n offsets i off)
  show ?case
  proof (cases "i < n")
    case False
    then show ?thesis by (subst index_offset_loop.simps, subst (2) index_offset_loop.simps) simp
  next
    case True
    then have eq: "index_array cmem A i = index_array cmem B i" using "1.prems" by simp
    show ?thesis
      using True eq "1.IH" "1.prems"
      by (subst index_offset_loop.simps, subst (2) index_offset_loop.simps)
         (auto split: option.splits)
  qed
qed

text \<open>
  Claim C9. Let the array of pointers of the legacy \<open>IndexAB\<close> and the buffer of structs
  of the modern one hold the same pointer at every entry below \<open>num_indices\<close>, which is at
  most 16. Then the two hand out the same index array at every such entry, so a read at
  any position gives the same value, and each of the four kernels computes the same
  result with either representation.
\<close>

theorem IndexAB_representations_interchangeable:
  assumes "\<forall>i < unat ni. i < 16 \<and> i < length ptrs \<and> i < length entries
              \<and> ptrs ! i = indexArray_modern (entries ! i)"
  shows "(\<forall>i < unat ni. index_array cmem (Legacy (IndexAB_legacy ptrs)) i
                          = index_array cmem (Modern entries) i)
    \<and> index_select sz cmem (Legacy (IndexAB_legacy ptrs)) sizes istr inp out ni shape nd strides t
      = index_select sz cmem (Modern entries) sizes istr inp out ni shape nd strides t
    \<and> index_put sz cmem (Legacy (IndexAB_legacy ptrs)) sizes istr inp out ni shape nd strides t
      = index_put sz cmem (Modern entries) sizes istr inp out ni shape nd strides t
    \<and> index_put_accumulate_native_dtypes cmem (Legacy (IndexAB_legacy ptrs)) sizes istr inpi outi ni shape nd strides t
      = index_put_accumulate_native_dtypes cmem (Modern entries) sizes istr inpi outi ni shape nd strides t
    \<and> atomic_index_put_accumulate cmem (Legacy (IndexAB_legacy ptrs)) sizes istr inpf outi ni shape nd strides t
      = atomic_index_put_accumulate cmem (Modern entries) sizes istr inpf outi ni shape nd strides t"
proof -
  have eq: "\<forall>i < unat ni. index_array cmem (Legacy (IndexAB_legacy ptrs)) i
                          = index_array cmem (Modern entries) i"
    using assms by (simp add: index_array_def)
  have loop: "index_offset_loop cmem (Legacy (IndexAB_legacy ptrs)) sizes istr (unat ni) offsets 0 0
            = index_offset_loop cmem (Modern entries) sizes istr (unat ni) offsets 0 0" for offsets
    by (rule index_offset_loop_cong[OF eq])
  show ?thesis
    using eq
    by (simp add: index_select_def index_select_addrs_def index_put_def index_put_addrs_def
          index_put_accumulate_native_dtypes_def index_put_accumulate_native_dtypes_addrs_def
          atomic_index_put_accumulate_def loop)
qed

theorem IndexAB_representations_interchangeable_witness:
  "index_select 4 (\<lambda>p. if p = 100 then Some [- 1, 0, 2] else None)
            (Legacy (IndexAB_legacy [100, 0, 0, 0, 0, 0, 0, 0, 0, 0, 0, 0, 0, 0, 0, 0])) [4] [12]
            [0, 1, 2, 10, 11, 12, 20, 21, 22, 30, 31, 32 :: int] [0, 0, 0, 0, 0, 0, 0, 0, 0] 1 [3, 3] 2
            [Uint3 4 4 0, Uint3 12 0 8] 0 = Some [30, 0, 0, 0, 0, 0, 0, 0, 0]"
  using IndexAB_representations_interchangeable[of 1 "[100, 0, 0, 0, 0, 0, 0, 0, 0, 0, 0, 0, 0, 0, 0, 0]" "[IndexAB_modern 100]"
      "\<lambda>p. if p = 100 then Some [- 1, 0, 2] else None" 4 "[4]" "[12]"
      "[0, 1, 2, 10, 11, 12, 20, 21, 22, 30, 31, 32 :: int]" "[0, 0, 0, 0, 0, 0, 0, 0, 0]"
      "[3, 3]" 2 "[Uint3 4 4 0, Uint3 12 0 8]" 0] index_select_thread_0
  by simp

section \<open>Scatter followed by gather\<close>

text \<open>
  A launch of threads that each store one element of \<open>src\<close>, at addresses \<open>A t\<close> that
  depend on the output buffer only through its length.
\<close>

lemma grid_copy:
  assumes F: "\<And>out t. length out = n \<Longrightarrow>
                 f out t = map_option (\<lambda>(p, i). out[p := src ! i]) (A t)"
    and "grid f order out0 = Some out" and "length out0 = n"
  shows "length out = n
       \<and> (\<forall>t \<in> set order. A t \<noteq> None)
       \<and> (\<forall>p. (\<forall>t \<in> set order. \<forall>i. A t \<noteq> Some (p, i)) \<longrightarrow> out ! p = out0 ! p)
       \<and> (\<forall>p < n. (\<exists>t \<in> set order. \<exists>i. A t = Some (p, i)) \<longrightarrow>
                    (\<exists>t \<in> set order. \<exists>i. A t = Some (p, i) \<and> out ! p = src ! i))"
  using assms(2,3)
proof (induction order arbitrary: out0)
  case Nil
  then show ?case by simp
next
  case (Cons t ts)
  from Cons.prems F[of out0 t] obtain q j where a: "A t = Some (q, j)"
    and g: "grid f ts (out0[q := src ! j]) = Some out"
    by (auto split: option.splits)
  let ?o1 = "out0[q := src ! j]"
  have l1: "length ?o1 = n" using Cons.prems by simp
  note IH = Cons.IH[OF g l1]
  have c1: "length out = n" using IH by simp
  have c2: "\<forall>t' \<in> set (t # ts). A t' \<noteq> None" using IH a by simp
  have c3: "\<forall>p. (\<forall>t' \<in> set (t # ts). \<forall>i. A t' \<noteq> Some (p, i)) \<longrightarrow> out ! p = out0 ! p"
  proof (intro allI impI)
    fix p assume h: "\<forall>t' \<in> set (t # ts). \<forall>i. A t' \<noteq> Some (p, i)"
    then have "q \<noteq> p" using a by auto
    moreover have "out ! p = ?o1 ! p" using IH h by simp
    ultimately show "out ! p = out0 ! p" by simp
  qed
  have c4: "\<forall>p < n. (\<exists>t' \<in> set (t # ts). \<exists>i. A t' = Some (p, i)) \<longrightarrow>
                    (\<exists>t' \<in> set (t # ts). \<exists>i. A t' = Some (p, i) \<and> out ! p = src ! i)"
  proof (intro allI impI)
    fix p assume p: "p < n" and ex: "\<exists>t' \<in> set (t # ts). \<exists>i. A t' = Some (p, i)"
    show "\<exists>t' \<in> set (t # ts). \<exists>i. A t' = Some (p, i) \<and> out ! p = src ! i"
    proof (cases "\<exists>t' \<in> set ts. \<exists>i. A t' = Some (p, i)")
      case True
      with IH p show ?thesis by auto
    next
      case False
      with ex a have qp: "q = p" by auto
      from False have "out ! p = ?o1 ! p" using IH by simp
      also have "\<dots> = src ! j" using qp p Cons.prems by simp
      finally show ?thesis using a qp by auto
    qed
  qed
  from c1 c2 c3 c4 show ?case by blast
qed

lemma exchange_xy_add:
  "uint3_add (exchange_xy a) (uint3_scale c (exchange_xy b)) = exchange_xy (uint3_add a (uint3_scale c b))"
  by (simp add: exchange_xy_def uint3_add_def uint3_scale_def)

lemma get_idx_loop_exchange:
  "get_idx_loop S n (map exchange_xy strides) dim idx (exchange_xy acc)
   = map_option exchange_xy (get_idx_loop S n strides dim idx acc)"
proof (induction S n strides dim idx acc rule: get_idx_loop.induct)
  case (1 S n strides dim idx acc)
  show ?case
  proof (cases "dim < n \<and> dim < length S \<and> dim < length strides \<and> S ! dim \<noteq> 0")
    case False
    then show ?thesis
      by (subst get_idx_loop.simps, subst (2) get_idx_loop.simps) auto
  next
    case True
    show ?thesis
      using True "1.IH"[OF _ _ refl refl]
      by (subst get_idx_loop.simps, subst (2) get_idx_loop.simps)
         (simp add: Let_def exchange_xy_add)
  qed
qed

lemma get_idx_exchange:
  "get_idx t S nd (map exchange_xy strides) = map_option exchange_xy (get_idx t S nd strides)"
  using get_idx_loop_exchange[of S "unat nd" strides 0 t uint3_zero]
  by (simp add: get_idx_def exchange_xy_def uint3_zero_def)

lemma index_offset_loop_z:
  assumes "uint3_z a = uint3_z b"
  shows "index_offset_loop cmem AB sizes istr n a i off = index_offset_loop cmem AB sizes istr n b i off"
proof (induction "n - i" arbitrary: i off)
  case 0
  then show ?case by (subst index_offset_loop.simps, subst (2) index_offset_loop.simps) simp
next
  case (Suc m)
  then have "m = n - (i + 1)" by simp
  from Suc.hyps(1)[OF this] show ?case
    using assms by (subst index_offset_loop.simps, subst (2) index_offset_loop.simps)
      (auto split: option.splits)
qed

lemma select_exchange_addrs:
  assumes s: "index_select_addrs sz cmem AB sizes istr mid dst ni S nd (map exchange_xy strides) t
              = Some (p, i)"
    and u: "index_put_addrs sz cmem AB sizes istr vals mid' ni S nd strides t = Some (q, j)"
  shows "p = j \<and> i = q"
proof -
  from u obtain offsets offset where g: "get_idx t S nd strides = Some offsets"
    and l: "index_offset_loop cmem AB sizes istr (unat ni) offsets 0 0 = Some offset"
    and dq: "deref sz mid' (int (unat (uint3_x offsets)) + sint offset) = Some q"
    and dj: "deref sz vals (int (unat (uint3_y offsets))) = Some j"
    by (auto simp: index_put_addrs_def bind_eq_Some_conv)
  have g': "get_idx t S nd (map exchange_xy strides) = Some (exchange_xy offsets)"
    using g by (simp add: get_idx_exchange)
  have l': "index_offset_loop cmem AB sizes istr (unat ni) (exchange_xy offsets) 0 0 = Some offset"
    using l index_offset_loop_z[of "exchange_xy offsets" offsets] by (simp add: exchange_xy_def)
  from s g' l' have dp: "deref sz dst (int (unat (uint3_y offsets))) = Some p"
    and di: "deref sz mid (int (unat (uint3_x offsets)) + sint offset) = Some i"
    by (auto simp: index_select_addrs_def bind_eq_Some_conv exchange_xy_def)
  from dp dj have "int sz * int p = int sz * int j" "0 < sz" by (auto simp: deref_Some_iff)
  then have "p = j" by simp
  moreover from di dq have "int sz * int i = int sz * int q" "0 < sz" by (auto simp: deref_Some_iff)
  then have "i = q" by simp
  ultimately show ?thesis by simp
qed

lemma index_put_as_copy:
  assumes "length out = length mid0"
  shows "index_put sz cmem AB sizes istr vals out ni S nd strides t
       = map_option (\<lambda>(p, i). out[p := vals ! i])
           (index_put_addrs sz cmem AB sizes istr vals mid0 ni S nd strides t)"
  using deref_length[OF assms, of sz]
  by (simp add: index_put_def index_put_addrs_def map_option_case split: Option.bind_splits)

lemma index_select_as_copy:
  assumes "length out = length dst0"
  shows "index_select sz cmem AB sizes istr mid out ni S nd strides t
       = map_option (\<lambda>(p, i). out[p := mid ! i])
           (index_select_addrs sz cmem AB sizes istr mid dst0 ni S nd strides t)"
  using deref_length[OF assms, of sz]
  by (simp add: index_select_def index_select_addrs_def map_option_case split: Option.bind_splits)

lemma index_put_addrs_thread_0: "index_put_addrs 4 (\<lambda>p. if p = 100 then Some [1, 0] else None)
     (Modern [IndexAB_modern 100]) [2] [4] [10, 20 :: int] [0, 0 :: int] 1 [2] 1 [Uint3 0 4 8] 0
   = Some (1, 0)"
  by (simp add: kernel_addrs_eval)

lemma index_put_addrs_thread_1: "index_put_addrs 4 (\<lambda>p. if p = 100 then Some [1, 0] else None)
     (Modern [IndexAB_modern 100]) [2] [4] [10, 20 :: int] [0, 0 :: int] 1 [2] 1 [Uint3 0 4 8] 1
   = Some (0, 1)"
  by (simp add: kernel_addrs_eval)

lemma index_put_permutation: "grid (\<lambda>out t. index_put 4 (\<lambda>p. if p = 100 then Some [1, 0] else None)
       (Modern [IndexAB_modern 100]) [2] [4] [10, 20 :: int] out 1 [2] 1 [Uint3 0 4 8] t)
     [0, 1] [0, 0] = Some [20, 10]"
  by (simp add: kernel_addrs_eval)

text \<open>
  Two threads scatter the values 10 and 20 through the indices 1 and 0, to distinct
  destinations. The gather with the same shape, strides and indices reads, in both
  threads, the element the first thread wrote and stores it at the same position: it
  returns 10 and an element it never wrote, not 10 and 20. The stride component \<open>x\<close> is
  the output side and \<open>y\<close> the input side in both kernels, while the indirect offset
  changes sides.
\<close>

theorem index_put_index_select_same_strides:
  "index_put_addrs 4 (\<lambda>p. if p = 100 then Some [1, 0] else None)
     (Modern [IndexAB_modern 100]) [2] [4] [10, 20 :: int] [0, 0 :: int] 1 [2] 1 [Uint3 0 4 8] 0
   = Some (1, 0)
 \<and> index_put_addrs 4 (\<lambda>p. if p = 100 then Some [1, 0] else None)
     (Modern [IndexAB_modern 100]) [2] [4] [10, 20 :: int] [0, 0 :: int] 1 [2] 1 [Uint3 0 4 8] 1
   = Some (0, 1)
 \<and> grid (\<lambda>out t. index_put 4 (\<lambda>p. if p = 100 then Some [1, 0] else None)
       (Modern [IndexAB_modern 100]) [2] [4] [10, 20 :: int] out 1 [2] 1 [Uint3 0 4 8] t)
     [0, 1] [0, 0] = Some [20, 10]
 \<and> grid (\<lambda>out t. index_select 4 (\<lambda>p. if p = 100 then Some [1, 0] else None)
       (Modern [IndexAB_modern 100]) [2] [4] [20, 10 :: int] out 1 [2] 1 [Uint3 0 4 8] t)
     [0, 1] [0, 0] = Some [10, 0]"
  by (simp add: kernel_addrs_eval)

text \<open>
  Claim C7, amended. Let a launch of \<open>index_put\<close> scatter \<open>vals\<close> into a buffer, the
  destinations of its threads being pairwise distinct, and let a launch of \<open>index_select\<close>
  gather from the result with the same shape and indices and with the strides whose output
  and input components are exchanged. Then every thread of the gather that also ran in
  the scatter reads the element its scatter wrote and stores it at the position its
  scatter read: the gathered buffer agrees with \<open>vals\<close> there. The threads of a launch run
  in any order.
\<close>

theorem index_put_then_index_select_recovers:
  assumes put: "grid (\<lambda>out t. index_put sz cmem AB sizes istr vals out ni S nd strides t) order1 mid0
                = Some mid"
    and inj: "inj_on (\<lambda>t. map_option fst (index_put_addrs sz cmem AB sizes istr vals mid0 ni S nd strides t))
                (set order1)"
    and sel: "grid (\<lambda>out t. index_select sz cmem AB sizes istr mid out ni S nd (map exchange_xy strides) t)
                order2 dst0 = Some dst"
    and sub: "set order2 \<subseteq> set order1"
  shows "\<forall>t \<in> set order2. \<exists>q j.
           index_put_addrs sz cmem AB sizes istr vals mid0 ni S nd strides t = Some (q, j)
         \<and> index_select_addrs sz cmem AB sizes istr mid dst0 ni S nd (map exchange_xy strides) t = Some (j, q)
         \<and> dst ! j = vals ! j"
proof
  fix t assume t: "t \<in> set order2"
  let ?A = "\<lambda>t. index_put_addrs sz cmem AB sizes istr vals mid0 ni S nd strides t"
  let ?B = "\<lambda>t. index_select_addrs sz cmem AB sizes istr mid dst0 ni S nd (map exchange_xy strides) t"
  note P = grid_copy[where A = ?A and src = vals and n = "length mid0", OF index_put_as_copy put refl]
  note G = grid_copy[where A = ?B and src = mid and n = "length dst0", OF index_select_as_copy sel refl]
  from P have Pdef: "\<forall>t \<in> set order1. ?A t \<noteq> None"
    and Pval: "\<forall>p < length mid0. (\<exists>t \<in> set order1. \<exists>i. ?A t = Some (p, i)) \<longrightarrow>
                    (\<exists>t \<in> set order1. \<exists>i. ?A t = Some (p, i) \<and> mid ! p = vals ! i)"
    by blast+
  from G have Gdef: "\<forall>t \<in> set order2. ?B t \<noteq> None"
    and Gval: "\<forall>p < length dst0. (\<exists>t \<in> set order2. \<exists>i. ?B t = Some (p, i)) \<longrightarrow>
                    (\<exists>t \<in> set order2. \<exists>i. ?B t = Some (p, i) \<and> dst ! p = mid ! i)"
    by blast+
  have midval: "mid ! q = vals ! j" if "u \<in> set order1" "?A u = Some (q, j)" for u q j
  proof -
    have "q < length mid0" using that(2)
      by (auto simp: index_put_addrs_def bind_eq_Some_conv deref_Some_iff)
    with Pval that obtain u' j' where u': "u' \<in> set order1" "?A u' = Some (q, j')" "mid ! q = vals ! j'"
      by blast
    from inj u'(1,2) that have "u' = u" by (auto dest!: inj_onD[where x = u' and y = u])
    with u' that show ?thesis by simp
  qed
  from t sub Pdef obtain q j where a: "?A t = Some (q, j)" by fastforce
  from t Gdef obtain p i where b: "?B t = Some (p, i)" by fastforce
  from select_exchange_addrs[OF b a] have pi: "p = j" "i = q" by simp_all
  have "j < length dst0" using b pi
    by (auto simp: index_select_addrs_def bind_eq_Some_conv deref_Some_iff)
  with Gval t b pi obtain u i' where u: "u \<in> set order2" "?B u = Some (j, i')" "dst ! j = mid ! i'"
    by blast
  from u(1) sub Pdef obtain q' j' where a': "?A u = Some (q', j')" by fastforce
  from select_exchange_addrs[OF u(2) a'] have "j = j'" "i' = q'" by simp_all
  with midval[of u q' j'] u(1) sub a' u(3) have "dst ! j = vals ! j" by auto
  with a b pi show "\<exists>q j. ?A t = Some (q, j) \<and> ?B t = Some (j, q) \<and> dst ! j = vals ! j" by auto
qed

theorem index_put_then_index_select_recovers_witness:
  "grid (\<lambda>out t. index_select 4 (\<lambda>p. if p = 100 then Some [1, 0] else None)
       (Modern [IndexAB_modern 100]) [2] [4] [20, 10 :: int] out 1 [2] 1
       (map exchange_xy [Uint3 0 4 8]) t) [1, 0] [0, 0] = Some [10, 20]
   \<and> (\<exists>q j.
         index_put_addrs 4 (\<lambda>p. if p = 100 then Some [1, 0] else None)
           (Modern [IndexAB_modern 100]) [2] [4] [10, 20 :: int] [0, 0 :: int] 1 [2] 1 [Uint3 0 4 8] 0
           = Some (q, j)
       \<and> index_select_addrs 4 (\<lambda>p. if p = 100 then Some [1, 0] else None)
           (Modern [IndexAB_modern 100]) [2] [4] [20, 10 :: int] [0, 0 :: int] 1 [2] 1
           (map exchange_xy [Uint3 0 4 8]) 0 = Some (j, q)
       \<and> [10, 20 :: int] ! j = [10, 20] ! j)
   \<and> (\<exists>q j.
         index_put_addrs 4 (\<lambda>p. if p = 100 then Some [1, 0] else None)
           (Modern [IndexAB_modern 100]) [2] [4] [10, 20 :: int] [0, 0 :: int] 1 [2] 1 [Uint3 0 4 8] 1
           = Some (q, j)
       \<and> index_select_addrs 4 (\<lambda>p. if p = 100 then Some [1, 0] else None)
           (Modern [IndexAB_modern 100]) [2] [4] [20, 10 :: int] [0, 0 :: int] 1 [2] 1
           (map exchange_xy [Uint3 0 4 8]) 1 = Some (j, q)
       \<and> [10, 20 :: int] ! j = [10, 20] ! j)"
proof -
  let ?cmem = "\<lambda>p. if p = (100 :: nat) then Some [1, 0 :: int64_t] else None"
  have inj: "inj_on (\<lambda>t. map_option fst (index_put_addrs 4 ?cmem
       (Modern [IndexAB_modern 100]) [2] [4] [10, 20 :: int] [0, 0 :: int] 1 [2] 1 [Uint3 0 4 8] t))
       (set [0, 1])"
    by (simp add: index_put_addrs_thread_0 index_put_addrs_thread_1)
  have sel: "grid (\<lambda>out t. index_select 4 ?cmem
       (Modern [IndexAB_modern 100]) [2] [4] [20, 10 :: int] out 1 [2] 1
       (map exchange_xy [Uint3 0 4 8]) t) [1, 0] [0, 0] = Some [10, 20]"
    by (simp add: kernel_addrs_eval exchange_xy_def)
  have sub: "set [1, 0 :: uint] \<subseteq> set [0, 1]" by simp
  from index_put_then_index_select_recovers[OF index_put_permutation inj sel sub] sel show ?thesis by simp
qed

section \<open>The retry loop of \<open>atomic_fetch_add_relaxed\<close>\<close>

lemma as_type_roundtrip [simp]:
  "as_type_uint (as_type_float w) = w" "as_type_float (as_type_uint f) = f"
  by (simp_all add: as_type_uint_def as_type_float_def)

lemma step_at_CAS:
  "atomic_fetch_add_relaxed_step addr val spurious mem (AtCAS e u) =
     (if mem ! addr = e \<and> \<not> spurious then (mem[addr := as_type_uint u], Returned)
      else (mem, AtCAS (mem ! addr) (float_add (as_type_float (mem ! addr)) val)))"
  by (simp add: atomic_compare_exchange_weak_explicit_def)

lemma step_updated_current:
  "updated_current val pc \<Longrightarrow>
   updated_current val (snd (atomic_fetch_add_relaxed_step addr val spurious mem pc))"
  by (cases pc) (auto simp: updated_current_def atomic_compare_exchange_weak_explicit_def Let_def)

lemma exec_updated_current:
  "updated_current val pc \<Longrightarrow> atomic_fetch_add_relaxed_exec addr val evs (mem, pc) = (mem', pc')
   \<Longrightarrow> updated_current val pc'"
proof (induction evs arbitrary: mem pc)
  case Nil
  then show ?case by simp
next
  case (Cons ev evs)
  show ?case
  proof (cases ev)
    case (Interfere w)
    with Cons show ?thesis by auto
  next
    case (Step sp)
    obtain m1 p1 where s: "atomic_fetch_add_relaxed_step addr val sp mem pc = (m1, p1)"
      by (cases "atomic_fetch_add_relaxed_step addr val sp mem pc")
    with step_updated_current[OF Cons.prems(1), of addr sp mem] have "updated_current val p1" by simp
    with Cons.IH[of p1 m1] Cons.prems(2) Step s show ?thesis by simp
  qed
qed

lemmas float_eval = float_add_def float_is_nan_def float_is_inf_def float_exponent_def float_fraction_def
  float_sign_def float_scaled_def float_round_def bit_length.simps Let_def

text \<open>
  Claim C1. In every execution of a call of \<open>atomic_fetch_add_relaxed\<close>, whatever other
  threads store to the slot in between, the call at a compare-and-swap holds in \<open>updated\<close>
  the sum of \<open>value\<close> and of \<open>expected\<close> as it was last loaded. A compare-and-swap that
  fails loads the slot into \<open>expected\<close> and the retry recomputes \<open>updated\<close> from that value;
  one that succeeds stores the sum of \<open>value\<close> and of the content of the slot at that
  moment. The reinterpretation between \<open>float\<close> and \<open>uint\<close> is the identity on bit patterns
  in both directions.
\<close>

theorem atomic_fetch_add_relaxed_retry_recomputes:
  assumes "atomic_fetch_add_relaxed_exec addr val evs (mem0, AtLoad) = (mem, pc)"
  shows "(\<forall>e u. pc = AtCAS e u \<longrightarrow>
            u = float_add (as_type_float e) val
          \<and> atomic_fetch_add_relaxed_step addr val spurious mem pc =
              (if mem ! addr = e \<and> \<not> spurious
               then (mem[addr := as_type_uint (float_add (as_type_float (mem ! addr)) val)], Returned)
               else (mem, AtCAS (mem ! addr) (float_add (as_type_float (mem ! addr)) val))))
       \<and> as_type_uint (as_type_float w) = w \<and> as_type_float (as_type_uint f) = f"
proof -
  have "updated_current val AtLoad" by (simp add: updated_current_def)
  from exec_updated_current[OF this assms] have "updated_current val pc" .
  then show ?thesis by (auto simp: updated_current_def atomic_compare_exchange_weak_explicit_def)
qed

theorem atomic_fetch_add_relaxed_retry_recomputes_witness:
  "atomic_fetch_add_relaxed_exec 0 (Float 0x3F800000) [Step False, Interfere 0x40000000, Step False]
     ([0x3F800000], AtLoad) = ([0x40000000], AtCAS 0x40000000 (Float 0x40400000))
   \<and> atomic_fetch_add_relaxed_step 0 (Float 0x3F800000) False [0x40000000]
       (AtCAS 0x40000000 (Float 0x40400000)) = ([0x40400000], Returned)"
proof -
  have a: "float_add (Float 0x3F800000) (Float 0x3F800000) = Float 0x40000000"
    by (simp add: float_eval)
  have b: "float_add (Float 0x40000000) (Float 0x3F800000) = Float 0x40400000"
    by (simp add: float_eval)
  have e: "atomic_fetch_add_relaxed_exec 0 (Float 0x3F800000) [Step False, Interfere 0x40000000, Step False]
     ([0x3F800000], AtLoad) = ([0x40000000], AtCAS 0x40000000 (Float 0x40400000))"
    by (simp add: atomic_compare_exchange_weak_explicit_def as_type_float_def as_type_uint_def a b)
  from atomic_fetch_add_relaxed_retry_recomputes[OF e, of False] b show ?thesis
    using e by (simp add: as_type_float_def as_type_uint_def)
qed

section \<open>Accumulation into one destination\<close>

lemma calls_of_update:
  "k < length threads \<Longrightarrow> threads ! k = (addr, val, pc) \<Longrightarrow>
   calls_of (threads[k := (addr, val, pc')]) = calls_of threads"
  by (induction threads arbitrary: k) (auto simp: calls_of_def split: nat.splits)

lemma returned_vals_update:
  "k < length threads \<Longrightarrow> threads ! k = (addr, val, pc) \<Longrightarrow> pc \<noteq> Returned \<Longrightarrow>
   mset (returned_vals (threads[k := (addr, val, pc')])) =
     (if pc' = Returned then add_mset val (mset (returned_vals threads))
      else mset (returned_vals threads))"
  by (induction threads arbitrary: k) (auto simp: returned_vals_def split: nat.splits)

lemma set_update_all:
  "\<forall>x \<in> set xs. P x \<Longrightarrow> P y \<Longrightarrow> \<forall>x \<in> set (xs[k := y]). P x"
  using set_update_subset_insert[of xs k y] by auto

lemma sched_step_inv:
  assumes "accumulate_inv a init calls cfg"
  shows "accumulate_inv a init calls (sched_step ev cfg)"
proof -
  obtain mem threads where cfg: "cfg = (mem, threads)" by (cases cfg)
  obtain k sp where ev: "ev = (k, sp)" by (cases ev)
  from assms cfg have alt: "a < length mem" and c: "calls_of threads = calls" and sa: "\<forall>c \<in> set calls. fst c = a"
    and uc: "\<forall>th \<in> set threads. updated_current (fst (snd th)) (snd (snd th))"
    by (auto simp: accumulate_inv_def)
  from assms cfg obtain ws where ws: "mset ws = mset (returned_vals threads)"
    "mem ! a = as_type_uint (foldl float_add (as_type_float init) ws)"
    by (auto simp: accumulate_inv_def)
  show ?thesis
  proof (cases "k < length threads")
    case False
    then show ?thesis using assms cfg ev by simp
  next
    case True
    obtain addr val pc where th: "threads ! k = (addr, val, pc)" by (cases "threads ! k")
    have "(addr, val) \<in> set (calls_of threads)"
      using True th by (force simp: calls_of_def set_conv_nth)
    then have addr: "addr = a" using c sa by auto
    have ucur: "updated_current val pc" using uc True th by (force simp: set_conv_nth)
    show ?thesis
    proof (cases pc)
      case AtLoad
      let ?pc' = "AtCAS (mem ! a) (float_add (as_type_float (mem ! a)) val)"
      have s: "sched_step ev cfg = (mem, threads[k := (a, val, ?pc')])"
        using cfg ev True th addr AtLoad by (simp add: Let_def)
      have "mset (returned_vals (threads[k := (a, val, ?pc')])) = mset (returned_vals threads)"
        using returned_vals_update[OF True, of a val pc ?pc'] th addr AtLoad by simp
      moreover have "\<forall>th \<in> set (threads[k := (a, val, ?pc')]).
                       updated_current (fst (snd th)) (snd (snd th))"
        by (rule set_update_all[OF uc]) (simp add: updated_current_def)
      moreover have "calls_of (threads[k := (a, val, ?pc')]) = calls"
        using calls_of_update[OF True, of a val pc ?pc'] th addr c by simp
      ultimately show ?thesis using s sa ws alt by (auto simp: accumulate_inv_def)
    next
      case (AtCAS e u)
      then have u: "u = float_add (as_type_float e) val" using ucur by (simp add: updated_current_def)
      show ?thesis
      proof (cases "mem ! a = e \<and> \<not> sp")
        case True2: True
        let ?mem' = "mem[a := as_type_uint u]"
        have s: "sched_step ev cfg = (?mem', threads[k := (a, val, Returned)])"
          using cfg ev True th addr AtCAS True2
          by (simp add: atomic_compare_exchange_weak_explicit_def)
        have m: "mset (returned_vals (threads[k := (a, val, Returned)]))
                 = add_mset val (mset (returned_vals threads))"
          using returned_vals_update[OF True, of a val pc Returned] th addr AtCAS by simp
        have u2: "\<forall>th \<in> set (threads[k := (a, val, Returned)]).
                       updated_current (fst (snd th)) (snd (snd th))"
          by (rule set_update_all[OF uc]) (simp add: updated_current_def)
        have c2: "calls_of (threads[k := (a, val, Returned)]) = calls"
          using calls_of_update[OF True, of a val pc Returned] th addr c by simp
        have "as_type_float e = foldl float_add (as_type_float init) ws"
          using True2 ws(2) as_type_roundtrip(2) by metis
        then have "?mem' ! a = as_type_uint (foldl float_add (as_type_float init) (ws @ [val]))"
          using alt u by simp
        moreover have "mset (ws @ [val]) = mset (returned_vals (threads[k := (a, val, Returned)]))"
          using m ws(1) by simp
        moreover have "a < length ?mem'" using alt by simp
        ultimately show ?thesis
          unfolding s accumulate_inv_def prod.case using sa u2 c2 by blast
      next
        case False
        let ?pc' = "AtCAS (mem ! a) (float_add (as_type_float (mem ! a)) val)"
        have s: "sched_step ev cfg = (mem, threads[k := (a, val, ?pc')])"
          using cfg ev True th addr AtCAS False
          by (auto simp: atomic_compare_exchange_weak_explicit_def)
        have "mset (returned_vals (threads[k := (a, val, ?pc')])) = mset (returned_vals threads)"
          using returned_vals_update[OF True, of a val pc ?pc'] th addr AtCAS by simp
        moreover have "\<forall>th \<in> set (threads[k := (a, val, ?pc')]).
                       updated_current (fst (snd th)) (snd (snd th))"
          by (rule set_update_all[OF uc]) (simp add: updated_current_def)
        moreover have "calls_of (threads[k := (a, val, ?pc')]) = calls"
          using calls_of_update[OF True, of a val pc ?pc'] th addr c by simp
        ultimately show ?thesis using s sa ws alt by (auto simp: accumulate_inv_def)
      qed
    next
      case Returned
      have "sched_step ev cfg = (mem, threads[k := threads ! k])"
        using cfg ev True th Returned by simp
      then show ?thesis using assms cfg by simp
    qed
  qed
qed

lemma run_inv:
  "accumulate_inv a init calls cfg \<Longrightarrow> accumulate_inv a init calls (run sched cfg)"
  unfolding run_def
  by (induction sched arbitrary: cfg) (simp_all add: sched_step_inv)

lemma returned_vals_all:
  "list_all (\<lambda>(addr, val, pc). pc = Returned) threads \<Longrightarrow>
   returned_vals threads = map snd (calls_of threads)"
  by (induction threads) (auto simp: returned_vals_def calls_of_def)

lemma those_calls:
  "length vs = length ts \<Longrightarrow> \<forall>k < length ts. f (ts ! k) = Some (a, vs ! k) \<Longrightarrow>
   those (map f ts) = Some (map (\<lambda>v. (a, v)) vs)"
proof (induction ts arbitrary: vs)
  case Nil
  then show ?case by simp
next
  case (Cons t ts)
  then obtain v vs' where vs: "vs = v # vs'" by (cases vs) auto
  from Cons.prems vs have h: "f t = Some (a, v)" "length vs' = length ts"
    "\<forall>k < length ts. f (ts ! k) = Some (a, vs' ! k)"
    by (auto dest: spec[of _ 0])
  from Cons.IH[OF h(2,3)] h(1) vs show ?case by simp
qed

lemma emulated_final:
  assumes len: "length vs = length ts"
    and emu: "\<forall>k < length ts. atomic_index_put_accumulate cmem AB sizes istr inputData out0 ni S nd
                 strides (ts ! k) = Some (a, vs ! k)"
    and g: "atomic_index_put_accumulate_grid cmem AB sizes istr inputData out0 ni S nd strides ts sched
            = Some cfg"
    and r: "all_returned cfg"
    and a: "a < length out0"
  shows "\<exists>ws. mset ws = mset vs
           \<and> fst cfg ! a = as_type_uint (foldl float_add (as_type_float (out0 ! a)) ws)"
proof -
  let ?calls = "map (\<lambda>v. (a, v)) vs"
  let ?cfg0 = "(out0, map (\<lambda>(addr, val). (addr, val, AtLoad)) ?calls)"
  have th: "those (map (atomic_index_put_accumulate cmem AB sizes istr inputData out0 ni S nd strides) ts)
            = Some ?calls"
    by (rule those_calls[OF len emu])
  with g have cfg: "cfg = run sched ?cfg0"
    by (simp add: atomic_index_put_accumulate_grid_def)
  have "accumulate_inv a (out0 ! a) ?calls ?cfg0"
    using a by (auto simp: accumulate_inv_def calls_of_def returned_vals_def comp_def
        updated_current_def intro!: exI[of _ "[]"])
  from run_inv[OF this, of sched] cfg have inv: "accumulate_inv a (out0 ! a) ?calls cfg" by simp
  obtain mem threads where mt: "cfg = (mem, threads)" by (cases cfg)
  from inv mt obtain ws where ws: "mset ws = mset (returned_vals threads)"
    "mem ! a = as_type_uint (foldl float_add (as_type_float (out0 ! a)) ws)"
    and c: "calls_of threads = ?calls"
    by (auto simp: accumulate_inv_def)
  from r mt have "returned_vals threads = map snd (calls_of threads)"
    by (simp add: all_returned_def returned_vals_all)
  with c have "returned_vals threads = vs" by (simp add: comp_def)
  with ws mt show ?thesis by auto
qed

lemma run_no_threads: "run sched (mem, []) = (mem, [])"
  unfolding run_def by (induction sched) auto

lemma atomic_index_put_accumulate_in_range:
  "atomic_index_put_accumulate cmem AB sizes istr inputData out0 ni S nd strides t = Some (a, v)
   \<Longrightarrow> a < length out0"
  by (auto simp: atomic_index_put_accumulate_def bind_eq_Some_conv deref_Some_iff)

lemma native_addrs_length:
  "length out = length out0 \<Longrightarrow>
   index_put_accumulate_native_dtypes_addrs cmem AB sizes istr inputData out ni S nd strides t
   = index_put_accumulate_native_dtypes_addrs cmem AB sizes istr inputData out0 ni S nd strides t"
  using deref_length[of out out0 4]
  by (simp add: index_put_accumulate_native_dtypes_addrs_def)

lemma native_grid:
  assumes "\<forall>t \<in> set order. \<exists>i. index_put_accumulate_native_dtypes_addrs cmem AB sizes istr inputData
              out0 ni S nd strides t = Some (a, i) \<and> inputData ! i = v t"
  shows "\<exists>out. grid (\<lambda>out t. index_put_accumulate_native_dtypes cmem AB sizes istr inputData out
                         ni S nd strides t) order out0 = Some out
           \<and> length out = length out0
           \<and> out ! a = out0 ! a + sum_list (map v order)"
  using assms
proof (induction order arbitrary: out0)
  case Nil
  then show ?case by simp
next
  case (Cons t ts)
  from Cons.prems obtain i where
    i: "index_put_accumulate_native_dtypes_addrs cmem AB sizes istr inputData out0 ni S nd strides t
        = Some (a, i)" "inputData ! i = v t" by auto
  then have a: "a < length out0"
    by (auto simp: index_put_accumulate_native_dtypes_addrs_def bind_eq_Some_conv deref_Some_iff)
  let ?o1 = "atomic_fetch_add_explicit out0 a (v t)"
  have l: "length ?o1 = length out0" by (simp add: atomic_fetch_add_explicit_def)
  have k: "index_put_accumulate_native_dtypes cmem AB sizes istr inputData out0 ni S nd strides t
           = Some ?o1"
    using i by (simp add: index_put_accumulate_native_dtypes_def)
  have "\<forall>t \<in> set ts. \<exists>i. index_put_accumulate_native_dtypes_addrs cmem AB sizes istr inputData
              ?o1 ni S nd strides t = Some (a, i) \<and> inputData ! i = v t"
    using Cons.prems native_addrs_length[OF l] by simp
  from Cons.IH[OF this] obtain out where
    out: "grid (\<lambda>out t. index_put_accumulate_native_dtypes cmem AB sizes istr inputData out
                         ni S nd strides t) ts ?o1 = Some out"
      "length out = length ?o1" "out ! a = ?o1 ! a + sum_list (map v ts)" by blast
  have "?o1 ! a = out0 ! a + v t" using a by (simp add: atomic_fetch_add_explicit_def)
  with out k l show ?case by (simp add: add.assoc)
qed

lemma native_final:
  assumes len: "length us = length ts"
    and tg: "\<forall>k < length ts. \<exists>i. index_put_accumulate_native_dtypes_addrs cmem AB sizes istr
               inputData out0 ni S nd strides (ts ! k) = Some (a, i) \<and> inputData ! i = us ! k"
    and perm: "mset order = mset ts"
  shows "\<exists>out. grid (\<lambda>out t. index_put_accumulate_native_dtypes cmem AB sizes istr inputData out
                         ni S nd strides t) order out0 = Some out
           \<and> out ! a = out0 ! a + sum_list us"
proof -
  let ?A = "\<lambda>t. index_put_accumulate_native_dtypes_addrs cmem AB sizes istr inputData out0 ni S nd strides t"
  define v where "v t = inputData ! snd (the (?A t))" for t
  have vk: "?A (ts ! k) = Some (a, snd (the (?A (ts ! k)))) \<and> v (ts ! k) = us ! k"
    if "k < length ts" for k
    using tg that by (auto simp: v_def)
  have "map v ts = us"
    by (rule nth_equalityI) (use len vk in auto)
  have "\<forall>t \<in> set order. \<exists>i. ?A t = Some (a, i) \<and> inputData ! i = v t"
  proof
    fix t assume "t \<in> set order"
    then have "t \<in> set ts" using perm by (metis set_mset_mset)
    then obtain k where "k < length ts" "t = ts ! k" by (auto simp: in_set_conv_nth)
    with vk[of k] show "\<exists>i. ?A t = Some (a, i) \<and> inputData ! i = v t"
      by (auto simp: v_def)
  qed
  from native_grid[OF this] obtain out where
    out: "grid (\<lambda>out t. index_put_accumulate_native_dtypes cmem AB sizes istr inputData out
                         ni S nd strides t) order out0 = Some out"
      "out ! a = out0 ! a + sum_list (map v order)" by blast
  have "sum_list (map v order) = sum_mset (image_mset v (mset order))"
    by (metis mset_map sum_mset_sum_list)
  also have "\<dots> = sum_list (map v ts)" using perm by (metis mset_map sum_mset_sum_list)
  finally show ?thesis using out \<open>map v ts = us\<close> by auto
qed

lemma run_append: "run (s1 @ s2) cfg = run s2 (run s1 cfg)"
  by (simp add: run_def)

lemma sequential_Suc: "sequential (Suc k) = sequential k @ [(k, False), (k, False)]"
  by (simp add: sequential_def)

lemma two_steps_return:
  assumes "k < length threads" and "snd (snd (threads ! k)) = AtLoad"
  shows "\<exists>mem' addr val. run [(k, False), (k, False)] (mem, threads)
           = (mem', threads[k := (addr, val, Returned)])"
proof -
  obtain addr val where th: "threads ! k = (addr, val, AtLoad)"
    using assms(2) by (cases "threads ! k") auto
  show ?thesis
    using assms(1) th
    by (auto simp: run_def Let_def atomic_compare_exchange_weak_explicit_def)
qed

lemma sequential_returns:
  assumes "k \<le> length threads" and "\<forall>i < length threads. snd (snd (threads ! i)) = AtLoad"
  shows "\<exists>mem' threads'. run (sequential k) (mem, threads) = (mem', threads')
           \<and> length threads' = length threads
           \<and> (\<forall>i < length threads. snd (snd (threads' ! i)) = (if i < k then Returned else AtLoad))"
  using assms(1)
proof (induction k)
  case 0
  then show ?case using assms(2) by (simp add: sequential_def run_def)
next
  case (Suc k)
  then obtain m1 t1 where s: "run (sequential k) (mem, threads) = (m1, t1)"
    and l: "length t1 = length threads"
    and p: "\<forall>i < length threads. snd (snd (t1 ! i)) = (if i < k then Returned else AtLoad)"
    by auto
  have k: "k < length t1" using Suc.prems l by simp
  have "snd (snd (t1 ! k)) = AtLoad" using p k l by simp
  from two_steps_return[OF k this, of m1] obtain m2 addr val where
    r: "run [(k, False), (k, False)] (m1, t1) = (m2, t1[k := (addr, val, Returned)])" by blast
  have "\<forall>i < length threads. snd (snd (t1[k := (addr, val, Returned)] ! i))
          = (if i < Suc k then Returned else AtLoad)"
    using p l k by (auto simp: nth_list_update less_Suc_eq)
  then show ?case using s r l by (simp add: sequential_Suc run_append)
qed

lemma sequential_all_returned:
  assumes "\<forall>i < length threads. snd (snd (threads ! i)) = AtLoad"
  shows "all_returned (run (sequential (length threads)) (mem, threads))"
proof -
  from sequential_returns[OF le_refl assms, of mem] obtain mem' threads' where
    r: "run (sequential (length threads)) (mem, threads) = (mem', threads')"
    "length threads' = length threads"
    "\<forall>i < length threads. snd (snd (threads' ! i)) = Returned" by auto
  then show ?thesis
    by (auto simp: all_returned_def list_all_length split: prod.splits)
qed

lemma emulated_terminating_schedule:
  assumes len: "length vs = length ts"
    and emu: "\<forall>k < length ts. atomic_index_put_accumulate cmem AB sizes istr inputData out0 ni S nd
                 strides (ts ! k) = Some (a, vs ! k)"
  shows "\<exists>cfg. atomic_index_put_accumulate_grid cmem AB sizes istr inputData out0 ni S nd strides ts
             (sequential (length ts)) = Some cfg \<and> all_returned cfg"
proof -
  let ?threads = "map (\<lambda>(addr, val). (addr, val, AtLoad)) (map (\<lambda>v. (a, v)) vs)"
  have th: "those (map (atomic_index_put_accumulate cmem AB sizes istr inputData out0 ni S nd strides) ts)
            = Some (map (\<lambda>v. (a, v)) vs)"
    by (rule those_calls[OF len emu])
  have "all_returned (run (sequential (length ?threads)) (out0, ?threads))"
    by (rule sequential_all_returned) simp
  then show ?thesis using th len by (simp add: atomic_index_put_accumulate_grid_def)
qed

lemma float_add_2p24_1: "float_add (Float 0x4B800000) (Float 0x3F800000) = Float 0x4B800000"
  by (simp add: float_eval)

lemma float_add_2p24_neg: "float_add (Float 0x4B800000) (Float 0xCB800000) = Float 0"
  by (simp add: float_eval)

lemma float_add_0_1: "float_add (Float 0) (Float 0x3F800000) = Float 0x3F800000"
  by (simp add: float_eval)

lemma atomic_index_put_accumulate_thread_0: "atomic_index_put_accumulate (\<lambda>p. if p = 100 then Some [0, 0] else None)
     (Modern [IndexAB_modern 100]) [1] [4] [Float 0x3F800000, Float 0xCB800000] [0x4B800000]
     1 [2] 1 [Uint3 0 4 8] 0 = Some (0, Float 0x3F800000)"
  by (simp add: atomic_index_put_accumulate_def kernel_eval)

lemma atomic_index_put_accumulate_thread_1: "atomic_index_put_accumulate (\<lambda>p. if p = 100 then Some [0, 0] else None)
     (Modern [IndexAB_modern 100]) [1] [4] [Float 0x3F800000, Float 0xCB800000] [0x4B800000]
     1 [2] 1 [Uint3 0 4 8] 1 = Some (0, Float 0xCB800000)"
  by (simp add: atomic_index_put_accumulate_def kernel_eval)

lemmas run_eval = atomic_index_put_accumulate_grid_def run_def
  atomic_compare_exchange_weak_explicit_def as_type_float_def as_type_uint_def

lemma native_addrs_thread_0: "index_put_accumulate_native_dtypes_addrs (\<lambda>p. if p = 100 then Some [0, 0] else None)
     (Modern [IndexAB_modern 100]) [1] [4] [5, 7] [10] 1 [2] 1 [Uint3 0 4 8] 0 = Some (0, 0)"
  by (simp add: index_put_accumulate_native_dtypes_addrs_def kernel_eval)

lemma native_addrs_thread_1: "index_put_accumulate_native_dtypes_addrs (\<lambda>p. if p = 100 then Some [0, 0] else None)
     (Modern [IndexAB_modern 100]) [1] [4] [5, 7] [10] 1 [2] 1 [Uint3 0 4 8] 1 = Some (0, 1)"
  by (simp add: index_put_accumulate_native_dtypes_addrs_def kernel_eval)

text \<open>
  Two threads add 1.0 and \<open>-2\<^sup>2\<^sup>4\<close> to a slot that holds \<open>2\<^sup>2\<^sup>4\<close>. When the thread adding 1.0
  goes first the sum \<open>2\<^sup>2\<^sup>4 + 1\<close> rounds to \<open>2\<^sup>2\<^sup>4\<close> and the slot ends at 0.0; when it goes
  second the slot ends at 1.0. The final value depends on the interleaving.
\<close>

theorem atomic_index_put_accumulate_order_dependent:
  "atomic_index_put_accumulate_grid (\<lambda>p. if p = 100 then Some [0, 0] else None)
     (Modern [IndexAB_modern 100]) [1] [4] [Float 0x3F800000, Float 0xCB800000] [0x4B800000]
     1 [2] 1 [Uint3 0 4 8] [0, 1] [(0, False), (0, False), (1, False), (1, False)]
   = Some ([0], [(0, Float 0x3F800000, Returned), (0, Float 0xCB800000, Returned)])
 \<and> atomic_index_put_accumulate_grid (\<lambda>p. if p = 100 then Some [0, 0] else None)
     (Modern [IndexAB_modern 100]) [1] [4] [Float 0x3F800000, Float 0xCB800000] [0x4B800000]
     1 [2] 1 [Uint3 0 4 8] [0, 1] [(1, False), (1, False), (0, False), (0, False)]
   = Some ([0x3F800000], [(0, Float 0x3F800000, Returned), (0, Float 0xCB800000, Returned)])"
  by (simp add: run_eval atomic_index_put_accumulate_thread_0 atomic_index_put_accumulate_thread_1 float_add_2p24_1 float_add_2p24_neg float_add_0_1)

text \<open>
  Claim C2, amended. Let the threads \<open>ts\<close> of a launch all accumulate into the destination
  \<open>a\<close>. In \<open>index_put_accumulate_native_dtypes\<close>, with the values \<open>us\<close>, every order of the
  threads is defined and leaves in the destination its initial value plus the sum of
  \<open>us\<close>, in 32-bit arithmetic. In \<open>atomic_index_put_accumulate\<close>, with the values \<open>vs\<close>, every
  schedule after which all threads have returned leaves in the destination its initial
  value to which the values have been added one after the other by \<open>float\<close> addition, in
  some order of \<open>vs\<close>: no update is lost, and the rounding follows that order. Such a
  schedule exists: the one that runs the threads one after the other.
\<close>

theorem accumulate_into_one_destination:
  "(length us = length ts
     \<and> (\<forall>k < length ts. \<exists>i. index_put_accumulate_native_dtypes_addrs cmem AB sizes istr
               inputData out0 ni S nd strides (ts ! k) = Some (a, i) \<and> inputData ! i = us ! k)
     \<and> mset order = mset ts
    \<longrightarrow> (\<exists>out. grid (\<lambda>out t. index_put_accumulate_native_dtypes cmem AB sizes istr inputData out
                         ni S nd strides t) order out0 = Some out
           \<and> out ! a = out0 ! a + sum_list us))
 \<and> (length vs = length ts
     \<and> (\<forall>k < length ts. atomic_index_put_accumulate cmem AB sizes istr inputDataF out0 ni S nd
                 strides (ts ! k) = Some (a, vs ! k))
     \<and> atomic_index_put_accumulate_grid cmem AB sizes istr inputDataF out0 ni S nd strides ts sched
            = Some cfg
     \<and> all_returned cfg
    \<longrightarrow> (\<exists>ws. mset ws = mset vs
           \<and> fst cfg ! a = as_type_uint (foldl float_add (as_type_float (out0 ! a)) ws)))
 \<and> (length vs = length ts
     \<and> (\<forall>k < length ts. atomic_index_put_accumulate cmem AB sizes istr inputDataF out0 ni S nd
                 strides (ts ! k) = Some (a, vs ! k))
    \<longrightarrow> (\<exists>cfg. atomic_index_put_accumulate_grid cmem AB sizes istr inputDataF out0 ni S nd strides
                 ts (sequential (length ts)) = Some cfg \<and> all_returned cfg))"
proof (intro conjI impI)
  assume "length us = length ts
     \<and> (\<forall>k < length ts. \<exists>i. index_put_accumulate_native_dtypes_addrs cmem AB sizes istr
               inputData out0 ni S nd strides (ts ! k) = Some (a, i) \<and> inputData ! i = us ! k)
     \<and> mset order = mset ts"
  then show "\<exists>out. grid (\<lambda>out t. index_put_accumulate_native_dtypes cmem AB sizes istr inputData out
                         ni S nd strides t) order out0 = Some out
           \<and> out ! a = out0 ! a + sum_list us"
    using native_final[of us ts cmem AB sizes istr inputData out0 ni S nd strides a order] by blast
next
  assume h: "length vs = length ts
     \<and> (\<forall>k < length ts. atomic_index_put_accumulate cmem AB sizes istr inputDataF out0 ni S nd
                 strides (ts ! k) = Some (a, vs ! k))
     \<and> atomic_index_put_accumulate_grid cmem AB sizes istr inputDataF out0 ni S nd strides ts sched
            = Some cfg
     \<and> all_returned cfg"
  show "\<exists>ws. mset ws = mset vs
           \<and> fst cfg ! a = as_type_uint (foldl float_add (as_type_float (out0 ! a)) ws)"
  proof (cases ts)
    case Nil
    with h have "vs = []" "cfg = (out0, [])"
      by (auto simp: atomic_index_put_accumulate_grid_def run_no_threads)
    then show ?thesis by (auto intro!: exI[of _ "[]"])
  next
    case (Cons t ts')
    with h have "atomic_index_put_accumulate cmem AB sizes istr inputDataF out0 ni S nd
                 strides (ts ! 0) = Some (a, vs ! 0)" by auto
    then have "a < length out0" by (rule atomic_index_put_accumulate_in_range)
    with h emulated_final[of vs ts cmem AB sizes istr inputDataF out0 ni S nd strides a sched cfg]
    show ?thesis by blast
  qed
next
  assume "length vs = length ts
     \<and> (\<forall>k < length ts. atomic_index_put_accumulate cmem AB sizes istr inputDataF out0 ni S nd
                 strides (ts ! k) = Some (a, vs ! k))"
  then show "\<exists>cfg. atomic_index_put_accumulate_grid cmem AB sizes istr inputDataF out0 ni S nd strides
                 ts (sequential (length ts)) = Some cfg \<and> all_returned cfg"
    using emulated_terminating_schedule[of vs ts cmem AB sizes istr inputDataF out0 ni S nd strides a]
    by blast
qed


theorem accumulate_into_one_destination_witness:
  "(\<exists>out. grid (\<lambda>out t. index_put_accumulate_native_dtypes (\<lambda>p. if p = 100 then Some [0, 0] else None)
             (Modern [IndexAB_modern 100]) [1] [4] [5, 7] out 1 [2] 1 [Uint3 0 4 8] t) [1, 0] [10]
          = Some out \<and> out ! 0 = 10 + sum_list [5, 7])
 \<and> (\<exists>ws. mset ws = mset [Float 0x3F800000, Float 0xCB800000]
        \<and> [0x3F800000] ! 0 = as_type_uint (foldl float_add (as_type_float 0x4B800000) ws))"
proof -
  let ?cmem = "\<lambda>p. if p = (100 :: nat) then Some [0, 0 :: int64_t] else None"
  let ?cfg = "([0x3F800000 :: uint], [(0 :: nat, Float 0x3F800000, Returned), (0, Float 0xCB800000, Returned)])"
  have h1: "\<forall>k < length [0, 1 :: uint]. \<exists>i. index_put_accumulate_native_dtypes_addrs ?cmem
              (Modern [IndexAB_modern 100]) [1] [4] [5, 7] [10] 1 [2] 1 [Uint3 0 4 8] ([0, 1] ! k)
              = Some (0, i) \<and> [5, 7 :: uint] ! i = [5, 7] ! k"
    by (simp add: All_less_Suc native_addrs_thread_0 native_addrs_thread_1)
  have h2: "\<forall>k < length [0, 1 :: uint]. atomic_index_put_accumulate ?cmem
              (Modern [IndexAB_modern 100]) [1] [4] [Float 0x3F800000, Float 0xCB800000] [0x4B800000]
              1 [2] 1 [Uint3 0 4 8] ([0, 1] ! k) = Some (0, [Float 0x3F800000, Float 0xCB800000] ! k)"
    by (simp add: All_less_Suc atomic_index_put_accumulate_thread_0 atomic_index_put_accumulate_thread_1)
  have g: "atomic_index_put_accumulate_grid ?cmem
     (Modern [IndexAB_modern 100]) [1] [4] [Float 0x3F800000, Float 0xCB800000] [0x4B800000]
     1 [2] 1 [Uint3 0 4 8] [0, 1]
     [(1, False), (1, True), (0, False), (1, False), (0, False), (0, False)] = Some ?cfg"
    by (simp add: run_eval atomic_index_put_accumulate_thread_0 atomic_index_put_accumulate_thread_1 float_add_2p24_1 float_add_2p24_neg float_add_0_1)
  have r: "all_returned ?cfg" by (simp add: all_returned_def)
  have n: "\<exists>out. grid (\<lambda>out t. index_put_accumulate_native_dtypes ?cmem
             (Modern [IndexAB_modern 100]) [1] [4] [5, 7] out 1 [2] 1 [Uint3 0 4 8] t) [1, 0] [10]
          = Some out \<and> out ! 0 = 10 + sum_list [5, 7]"
    using accumulate_into_one_destination[of "[5, 7]" "[0, 1]" ?cmem
      "Modern [IndexAB_modern 100]" "[1]" "[4]" "[5, 7]" "[10]" 1 "[2]" 1 "[Uint3 0 4 8]" 0 "[1, 0]"]
      h1 by simp
  have e: "\<exists>ws. mset ws = mset [Float 0x3F800000, Float 0xCB800000]
        \<and> [0x3F800000] ! 0 = as_type_uint (foldl float_add (as_type_float 0x4B800000) ws)"
    using accumulate_into_one_destination[of _ "[0, 1]" ?cmem
      "Modern [IndexAB_modern 100]" "[1]" "[4]" _ "[0x4B800000]" 1 "[2]" 1 "[Uint3 0 4 8]" 0 _
      "[Float 0x3F800000, Float 0xCB800000]" "[Float 0x3F800000, Float 0xCB800000]"
      "[(1, False), (1, True), (0, False), (1, False), (0, False), (0, False)]" ?cfg]
      h2 g r by simp
  from n e show ?thesis by simp
qed

end
